theory Spec2Isabelle
  imports Main "HOL-Library.Word" "HOL-Library.Log_Nat"
begin

unbundle bit_operations_syntax

section \<open>The QMC5883L magnetometer driver (drivers/i2c/qmc5883l\_driver.go)\<close>

subsection \<open>Machine types, errors and the bus connection\<close>

type_synonym uint8 = "8 word"
type_synonym uint16 = "16 word"
type_synonym int16 = "16 word"
type_synonym int32 = "32 word"

text \<open>A Go \<open>error\<close> value, identified by its message. \<open>None :: error option\<close> is \<open>nil\<close>.\<close>

datatype error = Error string

text \<open>
  The connection is an external collaborator of the driver. It is modelled as a script:
  the reply of the \<open>k\<close>-th block read and of the \<open>k\<close>-th byte write it will be asked
  for, together with the trace of the operations issued so far. A successful block read
  delivers the bytes that fill the caller's buffer.
\<close>

datatype bus_op = ReadBlock uint8 nat | WriteByte uint8 uint8

fun is_read :: "bus_op \<Rightarrow> bool" where
  "is_read (ReadBlock reg n) = True"
| "is_read (WriteByte reg v) = False"

record connection =
  read_reply :: "nat \<Rightarrow> error + uint8 list"
  write_reply :: "nat \<Rightarrow> error option"
  issued :: "bus_op list"

definition reads_issued :: "connection \<Rightarrow> nat" where
  "reads_issued c = length (filter is_read (issued c))"

definition writes_issued :: "connection \<Rightarrow> nat" where
  "writes_issued c = length (filter (\<lambda>b. \<not> is_read b) (issued c))"

definition ReadBlockData :: "uint8 \<Rightarrow> nat \<Rightarrow> connection \<Rightarrow> (error + uint8 list) \<times> connection" where
  "ReadBlockData reg n c =
     (read_reply c (reads_issued c), c\<lparr>issued := issued c @ [ReadBlock reg n]\<rparr>)"

definition WriteByteData :: "uint8 \<Rightarrow> uint8 \<Rightarrow> connection \<Rightarrow> error option \<times> connection" where
  "WriteByteData reg v c =
     (write_reply c (writes_issued c), c\<lparr>issued := issued c @ [WriteByte reg v]\<rparr>)"

subsection \<open>Registers and bit patterns\<close>

definition qmc5883lRegX :: uint8 where "qmc5883lRegX = 0x00"
definition qmc5883lRegCtrl1 :: uint8 where "qmc5883lRegCtrl1 = 0x09"
definition qmc5883lRegCtrl2 :: uint8 where "qmc5883lRegCtrl2 = 0x0A"

definition qmc5883lCtrl1_Mode_Standby :: uint8 where "qmc5883lCtrl1_Mode_Standby = 0x00"
definition qmc5883lCtrl1_Mode_Continuous :: uint8 where "qmc5883lCtrl1_Mode_Continuous = 0x01"
definition qmc5883lCtrl1_ODR_10Hz :: uint8 where "qmc5883lCtrl1_ODR_10Hz = 0x00"
definition qmc5883lCtrl1_ODR_50Hz :: uint8 where "qmc5883lCtrl1_ODR_50Hz = 0x04"
definition qmc5883lCtrl1_ODR_100Hz :: uint8 where "qmc5883lCtrl1_ODR_100Hz = 0x08"
definition qmc5883lCtrl1_ODR_200Hz :: uint8 where "qmc5883lCtrl1_ODR_200Hz = 0x0C"
definition qmc5883lCtrl1_RNG_2G :: uint8 where "qmc5883lCtrl1_RNG_2G = 0x00"
definition qmc5883lCtrl1_RNG_8G :: uint8 where "qmc5883lCtrl1_RNG_8G = 0x10"
definition qmc5883lCtrl1_OSR_512 :: uint8 where "qmc5883lCtrl1_OSR_512 = 0x00"
definition qmc5883lCtrl1_OSR_256 :: uint8 where "qmc5883lCtrl1_OSR_256 = 0x40"
definition qmc5883lCtrl1_OSR_128 :: uint8 where "qmc5883lCtrl1_OSR_128 = 0x80"
definition qmc5883lCtrl1_OSR_64 :: uint8 where "qmc5883lCtrl1_OSR_64 = 0xC0"

definition qmc5883lCtrl2_SOFT_RST :: uint8 where "qmc5883lCtrl2_SOFT_RST = 0x80"
definition qmc5883lCtrl2_ROL_PNT :: uint8 where "qmc5883lCtrl2_ROL_PNT = 0x40"

lemmas qmc5883l_consts =
  qmc5883lRegX_def qmc5883lRegCtrl1_def qmc5883lRegCtrl2_def
  qmc5883lCtrl1_Mode_Standby_def qmc5883lCtrl1_Mode_Continuous_def
  qmc5883lCtrl1_ODR_10Hz_def qmc5883lCtrl1_ODR_50Hz_def
  qmc5883lCtrl1_ODR_100Hz_def qmc5883lCtrl1_ODR_200Hz_def
  qmc5883lCtrl1_RNG_2G_def qmc5883lCtrl1_RNG_8G_def
  qmc5883lCtrl1_OSR_512_def qmc5883lCtrl1_OSR_256_def
  qmc5883lCtrl1_OSR_128_def qmc5883lCtrl1_OSR_64_def
  qmc5883lCtrl2_SOFT_RST_def qmc5883lCtrl2_ROL_PNT_def

subsection \<open>The bit tables\<close>

text \<open>
  The three Go maps from a legal value to its bit pattern. Indexing a Go map with a key it
  does not hold yields the zero value of the element type, which \<open>index\<close> writes out.
\<close>

definition qmc5883lODRBits :: "uint8 \<rightharpoonup> uint8" where
  "qmc5883lODRBits = map_of
     [(10, qmc5883lCtrl1_ODR_10Hz),
      (50, qmc5883lCtrl1_ODR_50Hz),
      (100, qmc5883lCtrl1_ODR_100Hz),
      (200, qmc5883lCtrl1_ODR_200Hz)]"

definition qmc5883lRNGBits :: "uint8 \<rightharpoonup> uint8" where
  "qmc5883lRNGBits = map_of
     [(2, qmc5883lCtrl1_RNG_2G),
      (8, qmc5883lCtrl1_RNG_8G)]"

definition qmc5883lOSRBits :: "uint16 \<rightharpoonup> uint8" where
  "qmc5883lOSRBits = map_of
     [(512, qmc5883lCtrl1_OSR_512),
      (256, qmc5883lCtrl1_OSR_256),
      (128, qmc5883lCtrl1_OSR_128),
      (64, qmc5883lCtrl1_OSR_64)]"

definition index :: "('k \<rightharpoonup> uint8) \<Rightarrow> 'k \<Rightarrow> uint8" where
  "index m k = (case m k of None \<Rightarrow> 0 | Some v \<Rightarrow> v)"

text \<open>
  \<open>for k := range m\<close> visits every key of \<open>m\<close> once, in an order the Go runtime chooses
  anew at each loop. The validators below take that order as an argument;
  \<open>range_order m ks\<close> says that \<open>ks\<close> is such an order.
\<close>

definition range_order :: "('k \<rightharpoonup> 'v) \<Rightarrow> 'k list \<Rightarrow> bool" where
  "range_order m ks \<longleftrightarrow> distinct ks \<and> set ks = dom m"

subsection \<open>Formatting\<close>

text \<open>
  \<open>fmt.Errorf("... %v", keys)\<close> with \<open>keys\<close> of type \<open>[]int\<close>: the elements in decimal,
  separated by one space, between square brackets.
\<close>

definition digit :: "nat \<Rightarrow> char" where
  "digit n = ''0123456789'' ! n"

fun decimal :: "nat \<Rightarrow> string" where
  "decimal n = (if n < 10 then [digit n] else decimal (n div 10) @ [digit (n mod 10)])"

definition format_int :: "int \<Rightarrow> string" where
  "format_int i = (if i < 0 then CHR ''-'' # decimal (nat (- i)) else decimal (nat i))"

fun join_space :: "string list \<Rightarrow> string" where
  "join_space [] = []"
| "join_space [s] = s"
| "join_space (s # t # ss) = s @ '' '' @ join_space (t # ss)"

definition format_ints :: "int list \<Rightarrow> string" where
  "format_ints keys = ''['' @ join_space (map format_int keys) @ '']''"

subsection \<open>Validation\<close>

text \<open>
  Each validator returns \<open>nil\<close> for a key of its table. Otherwise it collects the keys in
  range order \<open>ks\<close>, converts them to \<open>int\<close>, sorts them with \<open>sort.Ints\<close> and returns the
  formatted error.
\<close>

definition qmc5883lValidateODR :: "uint8 list \<Rightarrow> uint8 \<Rightarrow> error option" where
  "qmc5883lValidateODR ks odr =
     (case qmc5883lODRBits odr of
        Some v \<Rightarrow> None
      | None \<Rightarrow>
          (let keys = map uint ks;
               keys = sort keys
           in Some (Error (''ODR must be one of: '' @ format_ints keys))))"

definition qmc5883lValidateRNG :: "uint8 list \<Rightarrow> uint8 \<Rightarrow> error option" where
  "qmc5883lValidateRNG ks rng =
     (case qmc5883lRNGBits rng of
        Some v \<Rightarrow> None
      | None \<Rightarrow>
          (let keys = map uint ks;
               keys = sort keys
           in Some (Error (''RNG must be one of: '' @ format_ints keys))))"

definition qmc5883lValidateOSR :: "uint16 list \<Rightarrow> uint16 \<Rightarrow> error option" where
  "qmc5883lValidateOSR ks osr =
     (case qmc5883lOSRBits osr of
        Some v \<Rightarrow> None
      | None \<Rightarrow>
          (let keys = map uint ks;
               keys = sort keys
           in Some (Error (''OSR must be one of: '' @ format_ints keys))))"

subsection \<open>The driver and its options\<close>

text \<open>
  The configuration fields of \<open>QMC5883LDriver\<close>. The embedded \<open>*Driver\<close> contributes the
  connection, which the operations below take and return explicitly.
\<close>

record QMC5883LDriver =
  odr :: uint8
  rng :: uint8
  osr :: uint8
  mode :: uint8

text \<open>
  \<open>Config\<close> is an interface; a value of it is the driver object behind it. The type
  assertion \<open>c.(*QMC5883LDriver)\<close> succeeds on \<open>QMC5883L d\<close> and fails on any other driver.
\<close>

datatype Config = QMC5883L QMC5883LDriver | OtherDriver

text \<open>
  An option is a \<open>func(Config)\<close> that mutates the object it is given and may panic. It is
  modelled as a function that returns the panic value, if any, and the object after the
  call. The first argument of each setter is the range order of the validator's loop.
  \<open>qmc5883lDebug\<close> is \<open>false\<close>, so nothing is logged for a foreign driver.
\<close>

type_synonym option_func = "Config \<Rightarrow> error option \<times> Config"

definition WithQMC5883LODR :: "uint8 list \<Rightarrow> uint8 \<Rightarrow> option_func" where
  "WithQMC5883LODR ks val c =
     (case c of
        QMC5883L d \<Rightarrow>
          (case qmc5883lValidateODR ks val of
             Some err \<Rightarrow> (Some err, c)
           | None \<Rightarrow> (None, QMC5883L (d\<lparr>odr := val\<rparr>)))
      | OtherDriver \<Rightarrow> (None, c))"

definition WithQMC5883LRNG :: "uint8 list \<Rightarrow> uint8 \<Rightarrow> option_func" where
  "WithQMC5883LRNG ks val c =
     (case c of
        QMC5883L d \<Rightarrow>
          (case qmc5883lValidateRNG ks val of
             Some err \<Rightarrow> (Some err, c)
           | None \<Rightarrow> (None, QMC5883L (d\<lparr>rng := val\<rparr>)))
      | OtherDriver \<Rightarrow> (None, c))"

definition WithQMC5883LOSR :: "uint16 list \<Rightarrow> uint16 \<Rightarrow> option_func" where
  "WithQMC5883LOSR ks val c =
     (case c of
        QMC5883L d \<Rightarrow>
          (case qmc5883lValidateOSR ks val of
             Some err \<Rightarrow> (Some err, c)
           | None \<Rightarrow> (None, QMC5883L (d\<lparr>osr := index qmc5883lOSRBits val\<rparr>)))
      | OtherDriver \<Rightarrow> (None, c))"

text \<open>
  The constructor applies the options in order to the new driver; a panic of an option
  ends it (\<open>Inl\<close>). The options receive the driver itself, so the object that comes back
  is the same driver; an option that answers with a foreign driver has no counterpart in
  Go and leaves the driver as it was.
\<close>

fun apply_options :: "option_func list \<Rightarrow> QMC5883LDriver \<Rightarrow> error + QMC5883LDriver" where
  "apply_options [] q = Inr q"
| "apply_options (option # options) q =
     (case option (QMC5883L q) of
        (Some err, c) \<Rightarrow> Inl err
      | (None, QMC5883L q') \<Rightarrow> apply_options options q'
      | (None, OtherDriver) \<Rightarrow> apply_options options q)"

definition NewQMC5883LDriver :: "option_func list \<Rightarrow> error + QMC5883LDriver" where
  "NewQMC5883LDriver options =
     (let q = \<lparr>odr = 50, rng = 2, osr = index qmc5883lOSRBits 512,
                mode = qmc5883lCtrl1_Mode_Continuous\<rparr>
      in apply_options options q)"

subsection \<open>Initialization\<close>

definition ctrl1 :: "QMC5883LDriver \<Rightarrow> uint8" where
  "ctrl1 q = mode q OR index qmc5883lODRBits (odr q) OR index qmc5883lRNGBits (rng q) OR osr q"

definition initialize :: "QMC5883LDriver \<Rightarrow> connection \<Rightarrow> error option \<times> connection" where
  "initialize q c =
     (case WriteByteData qmc5883lRegCtrl2 qmc5883lCtrl2_SOFT_RST c of
        (Some err, c1) \<Rightarrow> (Some err, c1)
      | (None, c1) \<Rightarrow>
          (case WriteByteData qmc5883lRegCtrl1 (ctrl1 q) c1 of
             (Some err, c2) \<Rightarrow> (Some err, c2)
           | (None, c2) \<Rightarrow>
               (let ctrl2 = qmc5883lCtrl2_ROL_PNT
                in WriteByteData qmc5883lRegCtrl2 ctrl2 c2)))"

subsection \<open>Raw acquisition\<close>

text \<open>
  \<open>readRawData\<close> has the named results \<open>(x, y, z, err)\<close>: when the block read fails it
  returns with \<open>x\<close>, \<open>y\<close>, \<open>z\<close> still at their zero values. \<open>int16(...)\<close> of a \<open>uint16\<close>
  keeps the bits; \<open>sint\<close> reads them as two's complement.
\<close>

definition readRawData :: "connection \<Rightarrow> (int16 \<times> int16 \<times> int16 \<times> error option) \<times> connection" where
  "readRawData c =
     (case ReadBlockData qmc5883lRegX 6 c of
        (Inl err, c') \<Rightarrow> ((0, 0, 0, Some err), c')
      | (Inr data, c') \<Rightarrow>
          (let x = (ucast (data ! 1) :: uint16) OR push_bit 8 (ucast (data ! 0) :: uint16);
               y = (ucast (data ! 3) :: uint16) OR push_bit 8 (ucast (data ! 2) :: uint16);
               z = (ucast (data ! 5) :: uint16) OR push_bit 8 (ucast (data ! 4) :: uint16)
           in ((x, y, z, None), c')))"

subsection \<open>float64 arithmetic\<close>

text \<open>
  A finite \<open>float64\<close> is modelled by the rational number it denotes. An arithmetic
  operation of IEEE 754 returns the exact result rounded to the nearest representable
  number, ties to the one with an even significand: \<open>f64_round\<close>. A binary64 number has 53
  significant bits: for a number of binary exponent \<open>e\<close> the unit in the last place is 2
  to the power \<open>e - 52\<close>, and below the smallest normal exponent -1022 it stays at 2 to
  the power -1074. Infinities, NaN and the sign of zero are not represented: the filtered
  read divides integers of at most 32 bits by 10, 12000 or 3000, which neither overflows
  nor yields a negative zero.
\<close>

type_synonym float64 = rat

definition floor_log2 :: "rat \<Rightarrow> int" where
  "floor_log2 a =
     (let (p, q) = quotient_of a;
          d = int (floorlog 2 (nat p)) - int (floorlog 2 (nat q))
      in if 2 powi d \<le> a then d else d - 1)"

definition round_half_even :: "rat \<Rightarrow> int" where
  "round_half_even a =
     (let f = \<lfloor>a\<rfloor>; d = a - of_int f
      in if d < 1 / 2 then f else if 1 / 2 < d then f + 1 else if even f then f else f + 1)"

definition f64_round :: "rat \<Rightarrow> float64" where
  "f64_round a =
     (if a = 0 then 0
      else let e = max (floor_log2 \<bar>a\<bar>) (- 1022);
               u = 2 powi (e - 52)
           in of_int (round_half_even (a / u)) * u)"

definition f64_div :: "float64 \<Rightarrow> float64 \<Rightarrow> float64" where
  "f64_div a b = f64_round (a / b)"

text \<open>\<open>float64(n)\<close> of an \<open>int32\<close> is exact: every 32-bit integer is a binary64 number.\<close>

definition f64_of_int32 :: "int32 \<Rightarrow> float64" where
  "f64_of_int32 n = of_int (sint n)"

subsection \<open>Filtered acquisition\<close>

definition numReadings :: nat where
  "numReadings = 10"

text \<open>
  The loop of \<open>Read\<close>, from its counter \<open>i\<close> and the three \<open>int32\<close> sums: a failed raw read
  ends it with that error; \<open>int32(xr)\<close> sign-extends. The mutex and the 10 ms pauses have
  no part in the values computed.
\<close>

function Read_loop ::
  "nat \<Rightarrow> int32 \<times> int32 \<times> int32 \<Rightarrow> connection \<Rightarrow>
     ((int32 \<times> int32 \<times> int32) \<times> error option) \<times> connection" where
  "Read_loop i (sumX, sumY, sumZ) c =
     (if i < numReadings then
        (case readRawData c of
           ((xr, yr, zr, Some err), c') \<Rightarrow> (((sumX, sumY, sumZ), Some err), c')
         | ((xr, yr, zr, None), c') \<Rightarrow>
             Read_loop (i + 1) (sumX + scast xr, sumY + scast yr, sumZ + scast zr) c')
      else (((sumX, sumY, sumZ), None), c))"
  by pat_completeness auto
termination
  by (relation "measure (\<lambda>(i, acc, c). numReadings - i)") auto

declare Read_loop.simps [simp del]

definition Read ::
  "QMC5883LDriver \<Rightarrow> connection \<Rightarrow> (float64 \<times> float64 \<times> float64 \<times> error option) \<times> connection" where
  "Read q c =
     (case Read_loop 0 (0, 0, 0) c of
        ((acc, Some err), c') \<Rightarrow> ((0, 0, 0, Some err), c')
      | (((sumX, sumY, sumZ), None), c') \<Rightarrow>
          (let avgX = f64_div (f64_of_int32 sumX) (of_nat numReadings);
               avgY = f64_div (f64_of_int32 sumY) (of_nat numReadings);
               avgZ = f64_div (f64_of_int32 sumZ) (of_nat numReadings);
               scale = (if rng q = 8 then 3000 else 12000)
           in ((f64_div avgX scale, f64_div avgY scale, f64_div avgZ scale, None), c')))"

subsection \<open>The arc tangent of the Go library\<close>

text \<open>
  \<open>Heading\<close> calls \<open>math.Atan2\<close>. What follows is the portable implementation of the Go
  standard library (\<open>math/atan.go\<close> and \<open>math/atan2.go\<close>), operation by operation, on
  the model of \<open>float64\<close> above: every product, quotient, sum and difference of variables
  is rounded, and every constant expression is first evaluated exactly and then rounded, as
  the Go compiler does. The special cases of \<open>Atan2\<close> for NaN, infinities and negative
  zero have no counterpart here, since such numbers are not represented.
\<close>

definition f64_mul :: "float64 \<Rightarrow> float64 \<Rightarrow> float64" where
  "f64_mul a b = f64_round (a * b)"

definition f64_add :: "float64 \<Rightarrow> float64 \<Rightarrow> float64" where
  "f64_add a b = f64_round (a + b)"

definition f64_sub :: "float64 \<Rightarrow> float64 \<Rightarrow> float64" where
  "f64_sub a b = f64_round (a - b)"

definition Pi_literal :: rat where
  "Pi_literal = 314159265358979323846264338327950288419716939937510582097494459 / 10 ^ 62"

definition math_Pi :: float64 where
  "math_Pi = f64_round Pi_literal"

definition xatan_P0 :: float64 where "xatan_P0 = f64_round (- 8750608600031904122785 / 10 ^ 22)"
definition xatan_P1 :: float64 where "xatan_P1 = f64_round (- 1615753718733365076637 / 10 ^ 20)"
definition xatan_P2 :: float64 where "xatan_P2 = f64_round (- 7500855792314704667340 / 10 ^ 20)"
definition xatan_P3 :: float64 where "xatan_P3 = f64_round (- 1228866684490136173410 / 10 ^ 19)"
definition xatan_P4 :: float64 where "xatan_P4 = f64_round (- 6485021904942025371773 / 10 ^ 20)"
definition xatan_Q0 :: float64 where "xatan_Q0 = f64_round (2485846490142306297962 / 10 ^ 20)"
definition xatan_Q1 :: float64 where "xatan_Q1 = f64_round (1650270098316988542046 / 10 ^ 19)"
definition xatan_Q2 :: float64 where "xatan_Q2 = f64_round (4328810604912902668951 / 10 ^ 19)"
definition xatan_Q3 :: float64 where "xatan_Q3 = f64_round (4853903996359136964868 / 10 ^ 19)"
definition xatan_Q4 :: float64 where "xatan_Q4 = f64_round (1945506571482613964425 / 10 ^ 19)"

text \<open>\<open>xatan\<close> evaluates a series valid in the range [0, 0.66].\<close>

definition xatan :: "float64 \<Rightarrow> float64" where
  "xatan x =
     (let z = f64_mul x x;
          p = f64_add (f64_mul (f64_add (f64_mul (f64_add (f64_mul (f64_add (f64_mul
                xatan_P0 z) xatan_P1) z) xatan_P2) z) xatan_P3) z) xatan_P4;
          q = f64_add (f64_mul (f64_add (f64_mul (f64_add (f64_mul (f64_add (f64_mul
                (f64_add z xatan_Q0) z) xatan_Q1) z) xatan_Q2) z) xatan_Q3) z) xatan_Q4;
          z = f64_div (f64_mul z p) q;
          z = f64_add (f64_mul x z) x
      in z)"

definition Morebits_literal :: rat where
  "Morebits_literal = 6123233995736765886130 / 10 ^ 38"

definition Morebits :: float64 where
  "Morebits = f64_round Morebits_literal"

definition Tan3pio8 :: float64 where
  "Tan3pio8 = f64_round (241421356237309504880 / 10 ^ 20)"

text \<open>\<open>satan\<close> reduces its argument (known to be positive) to the range [0, 0.66].\<close>

definition satan :: "float64 \<Rightarrow> float64" where
  "satan x =
     (if x \<le> f64_round (66 / 100) then xatan x
      else if Tan3pio8 < x then
        f64_add (f64_sub (f64_round (Pi_literal / 2)) (xatan (f64_div 1 x))) Morebits
      else
        f64_add (f64_add (f64_round (Pi_literal / 4)) (xatan (f64_div (f64_sub x 1) (f64_add x 1))))
          (f64_round (Morebits_literal / 2)))"

definition atan :: "float64 \<Rightarrow> float64" where
  "atan x = (if x = 0 then x else if 0 < x then satan x else - satan (- x))"

definition atan2 :: "float64 \<Rightarrow> float64 \<Rightarrow> float64" where
  "atan2 y x =
     (if y = 0 then (if 0 \<le> x then 0 else math_Pi)
      else if x = 0 then (if 0 < y then f64_round (Pi_literal / 2) else - f64_round (Pi_literal / 2))
      else
        (let q = atan (f64_div y x)
         in if x < 0 then (if q \<le> 0 then f64_add q math_Pi else f64_sub q math_Pi) else q))"

subsection \<open>The heading\<close>

text \<open>
  Lines 165 to 175 of \<open>Heading\<close>, from the filtered \<open>x\<close> and \<open>y\<close>, and \<open>Heading\<close> itself, which
  returns \<open>0\<close> with the error of the filtered read when that fails.
\<close>

definition headingDegrees :: "float64 \<Rightarrow> float64 \<Rightarrow> float64" where
  "headingDegrees x y =
     (let heading = atan2 y x;
          headingDegrees = f64_div (f64_mul heading 180) math_Pi
      in if headingDegrees < 0 then f64_add headingDegrees 360 else headingDegrees)"

definition Heading :: "QMC5883LDriver \<Rightarrow> connection \<Rightarrow> (float64 \<times> error option) \<times> connection" where
  "Heading q c =
     (case Read q c of
        ((x, y, z, Some err), c') \<Rightarrow> ((0, Some err), c')
      | ((x, y, z, None), c') \<Rightarrow> ((headingDegrees x y, None), c'))"

subsection \<open>Vocabulary of the statements\<close>

text \<open>
  The signed 16-bit number whose high byte is \<open>hi\<close> and whose low byte is \<open>lo\<close>, and the
  three such numbers of a 6-byte block, high byte first.
\<close>

definition int16_of_bytes :: "uint8 \<Rightarrow> uint8 \<Rightarrow> int" where
  "int16_of_bytes hi lo =
     (let n = 256 * uint hi + uint lo in if n < 32768 then n else n - 65536)"

definition block_x :: "uint8 list \<Rightarrow> int" where
  "block_x data = int16_of_bytes (data ! 0) (data ! 1)"

definition block_y :: "uint8 list \<Rightarrow> int" where
  "block_y data = int16_of_bytes (data ! 2) (data ! 3)"

definition block_z :: "uint8 list \<Rightarrow> int" where
  "block_z data = int16_of_bytes (data ! 4) (data ! 5)"

text \<open>The exact sums of the three axes over a list of blocks.\<close>

definition sum_x :: "uint8 list list \<Rightarrow> int" where
  "sum_x bs = sum_list (map block_x bs)"

definition sum_y :: "uint8 list list \<Rightarrow> int" where
  "sum_y bs = sum_list (map block_y bs)"

definition sum_z :: "uint8 list list \<Rightarrow> int" where
  "sum_z bs = sum_list (map block_z bs)"

text \<open>
  The options this driver exposes, each with the range order of its validator's loop, and
  the bit patterns the oversampling table holds.
\<close>

datatype exposed_option =
  ODR_option "uint8 list" uint8
| RNG_option "uint8 list" uint8
| OSR_option "uint16 list" uint16

fun option_func_of :: "exposed_option \<Rightarrow> option_func" where
  "option_func_of (ODR_option ks val) = WithQMC5883LODR ks val"
| "option_func_of (RNG_option ks val) = WithQMC5883LRNG ks val"
| "option_func_of (OSR_option ks val) = WithQMC5883LOSR ks val"

definition osr_patterns :: "uint8 set" where
  "osr_patterns = {0x00, 0x40, 0x80, 0xC0}"

text \<open>A connection that has issued nothing yet and answers as scripted.\<close>

definition fresh_connection ::
  "(nat \<Rightarrow> error + uint8 list) \<Rightarrow> (nat \<Rightarrow> error option) \<Rightarrow> connection" where
  "fresh_connection r w = \<lparr>read_reply = r, write_reply = w, issued = []\<rparr>"

section \<open>Properties\<close>

subsection \<open>Byte order of a raw sample\<close>

lemma hi_lo_add:
  fixes hi lo :: uint8
  shows "(ucast lo :: uint16) OR push_bit 8 (ucast hi :: uint16) = ucast lo + push_bit 8 (ucast hi)"
proof -
  have "\<not> bit (ucast lo :: uint16) n \<or> \<not> bit (push_bit 8 (ucast hi :: uint16)) n" for n
    by (cases "n < 8") (auto simp: bit_simps dest: bit_imp_le_length)
  then show ?thesis
    by (rule disjunctive_add [symmetric])
qed

lemma uint_push_hi:
  fixes hi :: uint8
  shows "uint (push_bit 8 (ucast hi :: uint16)) = 256 * uint hi"
proof -
  have hi: "uint hi < 256"
    using uint_lt2p [of hi] by simp
  have "uint (push_bit 8 (ucast hi :: uint16)) = take_bit 16 (push_bit 8 (uint (ucast hi :: uint16)))"
    by (simp add: unsigned_push_bit_eq)
  also have "uint (ucast hi :: uint16) = uint hi"
    by (simp add: uint_up_ucast is_up)
  also have "take_bit 16 (push_bit 8 (uint hi)) = push_bit 8 (uint hi)"
    using hi by (simp add: take_bit_int_eq_self push_bit_eq_mult)
  finally show ?thesis
    by (simp add: push_bit_eq_mult)
qed

lemma hi_lo_uint:
  fixes hi lo :: uint8
  shows "uint ((ucast lo :: uint16) OR push_bit 8 (ucast hi :: uint16)) = 256 * uint hi + uint lo"
proof -
  have lo: "uint lo < 256" and hi: "uint hi < 256"
    using uint_lt2p [of lo] uint_lt2p [of hi] by simp_all
  have a: "uint (ucast lo :: uint16) = uint lo"
    by (simp add: uint_up_ucast is_up)
  show ?thesis
    unfolding hi_lo_add using lo hi
    by (simp add: uint_word_ariths a uint_push_hi)
qed

lemma sint16_uint:
  "sint (x :: 16 word) = (if uint x < 32768 then uint x else uint x - 65536)"
proof -
  have b: "0 \<le> uint x" "uint x < 65536"
    using uint_lt2p [of x] by simp_all
  show ?thesis
  proof (cases "uint x < 32768")
    case True
    have "- (2 ^ 15) \<le> (0::int)"
      by simp
    then have "- (2 ^ 15) \<le> uint x"
      using b(1) by (rule order_trans)
    moreover have "uint x < 2 ^ 15"
      using True by simp
    ultimately
    have "signed_take_bit 15 (uint x) = uint x"
      by (rule signed_take_bit_int_eq_self)
    with True show ?thesis
      by (simp add: sint_uint)
  next
    case False
    have "uint x + 32768 = uint x - 32768 + 65536"
      by linarith
    then have "(uint x + 32768) mod 65536 = (uint x - 32768 + 65536) mod 65536"
      by (rule arg_cong)
    also have "\<dots> = (uint x - 32768) mod 65536"
      by (simp only: mod_add_self2)
    also have "\<dots> = uint x - 32768"
    proof (rule mod_pos_pos_trivial)
      show "0 \<le> uint x - 32768" using False by simp
      show "uint x - 32768 < 65536" using b by simp
    qed
    finally have "signed_take_bit 15 (uint x) = uint x - 65536"
      by (simp add: signed_take_bit_eq_take_bit_shift take_bit_eq_mod)
    with False show ?thesis
      by (simp add: sint_uint)
  qed
qed

lemma sint_hi_lo:
  fixes hi lo :: uint8
  shows "sint ((ucast lo :: uint16) OR push_bit 8 (ucast hi :: uint16)) = int16_of_bytes hi lo"
  by (simp add: sint16_uint hi_lo_uint int16_of_bytes_def Let_def)

lemma readRawData_ok:
  assumes "read_reply c (reads_issued c) = Inr data"
  shows "readRawData c =
           ((ucast (data ! 1) OR push_bit 8 (ucast (data ! 0)),
             ucast (data ! 3) OR push_bit 8 (ucast (data ! 2)),
             ucast (data ! 5) OR push_bit 8 (ucast (data ! 4)), None),
            c\<lparr>issued := issued c @ [ReadBlock 0x00 6]\<rparr>)"
  using assms by (simp add: readRawData_def ReadBlockData_def qmc5883lRegX_def)

lemma readRawData_fail:
  assumes "read_reply c (reads_issued c) = Inl err"
  shows "readRawData c = ((0, 0, 0, Some err), c\<lparr>issued := issued c @ [ReadBlock 0x00 6]\<rparr>)"
  using assms by (simp add: readRawData_def ReadBlockData_def qmc5883lRegX_def)

text \<open>
  C4. When the block read of 6 bytes starting at the X output register succeeds with
  \<open>data\<close>, \<open>readRawData\<close> issues exactly that one block read, reports no error, and
  rebuilds each axis with the earlier byte of its pair as the high byte:
  \<open>x = (data[0] << 8) | data[1]\<close>, \<open>y = (data[2] << 8) | data[3]\<close>,
  \<open>z = (data[4] << 8) | data[5]\<close>. Read as signed 16-bit numbers these are
  \<open>256 * data[0] + data[1]\<close> and so on, less 65536 from 32768 on.
\<close>

theorem readRawData_high_byte_first:
  assumes "read_reply c (reads_issued c) = Inr data" and "length data = 6"
  shows "readRawData c =
           ((push_bit 8 (ucast (data ! 0)) OR ucast (data ! 1),
             push_bit 8 (ucast (data ! 2)) OR ucast (data ! 3),
             push_bit 8 (ucast (data ! 4)) OR ucast (data ! 5), None),
            c\<lparr>issued := issued c @ [ReadBlock qmc5883lRegX 6]\<rparr>) \<and>
         sint (push_bit 8 (ucast (data ! 0)) OR ucast (data ! 1) :: int16) = block_x data \<and>
         sint (push_bit 8 (ucast (data ! 2)) OR ucast (data ! 3) :: int16) = block_y data \<and>
         sint (push_bit 8 (ucast (data ! 4)) OR ucast (data ! 5) :: int16) = block_z data"
proof -
  have swap: "push_bit 8 (ucast hi :: uint16) OR ucast lo = ucast lo OR push_bit 8 (ucast hi)"
    for hi lo :: uint8
    by (rule or.commute)
  show ?thesis
    unfolding swap readRawData_ok [OF assms(1)] sint_hi_lo block_x_def block_y_def block_z_def
    by (simp add: qmc5883lRegX_def)
qed

theorem readRawData_high_byte_first_witness:
  "readRawData (fresh_connection (\<lambda>k. Inr [0x2E, 0xE0, 0xFF, 0xFE, 0x80, 0x00]) (\<lambda>k. None)) =
     ((0x2EE0, 0xFFFE, 0x8000, None),
      \<lparr>read_reply = (\<lambda>k. Inr [0x2E, 0xE0, 0xFF, 0xFE, 0x80, 0x00]),
       write_reply = (\<lambda>k. None), issued = [ReadBlock 0x00 6]\<rparr>) \<and>
   sint (0x2EE0 :: int16) = 12000 \<and> block_x [0x2E, 0xE0, 0xFF, 0xFE, 0x80, 0x00] = 12000 \<and>
   sint (0xFFFE :: int16) = - 2 \<and> block_y [0x2E, 0xE0, 0xFF, 0xFE, 0x80, 0x00] = - 2 \<and>
   sint (0x8000 :: int16) = - 32768 \<and> block_z [0x2E, 0xE0, 0xFF, 0xFE, 0x80, 0x00] = - 32768"
  using readRawData_high_byte_first
    [of "fresh_connection (\<lambda>k. Inr [0x2E, 0xE0, 0xFF, 0xFE, 0x80, 0x00]) (\<lambda>k. None)"
        "[0x2E, 0xE0, 0xFF, 0xFE, 0x80, 0x00]"]
  by (simp add: fresh_connection_def qmc5883lRegX_def block_x_def block_y_def block_z_def
      int16_of_bytes_def)

subsection \<open>The loop of the filtered read\<close>

lemma reads_issued_snoc:
  "reads_issued (c\<lparr>issued := issued c @ [ReadBlock reg n]\<rparr>) = reads_issued c + 1"
  by (simp add: reads_issued_def)

lemma scast_hi_lo:
  fixes hi lo :: uint8
  shows "(scast ((ucast lo :: uint16) OR push_bit 8 (ucast hi :: uint16)) :: int32) =
           word_of_int (int16_of_bytes hi lo)"
  by (simp only: scast_eq sint_hi_lo)


lemma Read_loop_step:
  assumes "i < numReadings" and "read_reply c (reads_issued c) = Inr b"
  shows "Read_loop i (sx, sy, sz) c =
           Read_loop (i + 1)
             (sx + word_of_int (block_x b), sy + word_of_int (block_y b),
              sz + word_of_int (block_z b))
             (c\<lparr>issued := issued c @ [ReadBlock 0x00 6]\<rparr>)"
  by (subst Read_loop.simps)
    (simp add: assms(1) readRawData_ok [OF assms(2)] scast_hi_lo block_x_def block_y_def
      block_z_def)

lemma Read_loop_stop:
  assumes "i < numReadings" and "read_reply c (reads_issued c) = Inl err"
  shows "Read_loop i (sx, sy, sz) c =
           (((sx, sy, sz), Some err), c\<lparr>issued := issued c @ [ReadBlock 0x00 6]\<rparr>)"
  by (subst Read_loop.simps) (simp add: assms(1) readRawData_fail [OF assms(2)])

lemma Read_loop_done:
  assumes "\<not> i < numReadings"
  shows "Read_loop i (sx, sy, sz) c = (((sx, sy, sz), None), c)"
  by (subst Read_loop.simps) (simp add: assms)

lemma replies_tail:
  assumes "\<forall>j<length (b # bs). read_reply c (reads_issued c + j) = Inr ((b # bs) ! j)"
  shows "\<forall>j<length bs.
           read_reply (c\<lparr>issued := issued c @ [ReadBlock reg n]\<rparr>)
             (reads_issued (c\<lparr>issued := issued c @ [ReadBlock reg n]\<rparr>) + j) = Inr (bs ! j)"
proof (intro allI impI)
  fix j assume "j < length bs"
  then have "Suc j < length (b # bs)" by simp
  with assms have "read_reply c (reads_issued c + Suc j) = Inr ((b # bs) ! Suc j)"
    by blast
  then show "read_reply (c\<lparr>issued := issued c @ [ReadBlock reg n]\<rparr>)
             (reads_issued (c\<lparr>issued := issued c @ [ReadBlock reg n]\<rparr>) + j) = Inr (bs ! j)"
    by (simp add: reads_issued_snoc)
qed

lemma Read_loop_ok:
  assumes "i + length bs = numReadings"
    and "\<forall>j<length bs. read_reply c (reads_issued c + j) = Inr (bs ! j)"
  shows "Read_loop i (sx, sy, sz) c =
           (((sx + word_of_int (sum_x bs), sy + word_of_int (sum_y bs),
              sz + word_of_int (sum_z bs)), None),
            c\<lparr>issued := issued c @ replicate (length bs) (ReadBlock 0x00 6)\<rparr>)"
  using assms
proof (induction bs arbitrary: i sx sy sz c)
  case Nil
  then show ?case
    by (simp add: Read_loop_done sum_x_def sum_y_def sum_z_def)
next
  case (Cons b bs)
  let ?c = "c\<lparr>issued := issued c @ [ReadBlock 0x00 6]\<rparr>"
  from Cons.prems have i: "i < numReadings" and len: "(i + 1) + length bs = numReadings"
    by simp_all
  from Cons.prems(2) have b: "read_reply c (reads_issued c) = Inr b"
    by fastforce
  note rest = replies_tail [OF Cons.prems(2)]
  show ?case
    unfolding Read_loop_step [OF i b] Cons.IH [OF len rest]
    by (simp add: sum_x_def sum_y_def sum_z_def replicate_app_Cons_same add.assoc)
qed

lemma Read_loop_abort:
  assumes "i + length bs < numReadings"
    and "\<forall>j<length bs. read_reply c (reads_issued c + j) = Inr (bs ! j)"
    and "read_reply c (reads_issued c + length bs) = Inl err"
  shows "Read_loop i (sx, sy, sz) c =
           (((sx + word_of_int (sum_x bs), sy + word_of_int (sum_y bs),
              sz + word_of_int (sum_z bs)), Some err),
            c\<lparr>issued := issued c @ replicate (length bs + 1) (ReadBlock 0x00 6)\<rparr>)"
  using assms
proof (induction bs arbitrary: i sx sy sz c)
  case Nil
  then show ?case
    by (simp add: Read_loop_stop sum_x_def sum_y_def sum_z_def)
next
  case (Cons b bs)
  let ?c = "c\<lparr>issued := issued c @ [ReadBlock 0x00 6]\<rparr>"
  from Cons.prems have i: "i < numReadings" and len: "(i + 1) + length bs < numReadings"
    by simp_all
  from Cons.prems(2) have b: "read_reply c (reads_issued c) = Inr b"
    by fastforce
  note rest = replies_tail [OF Cons.prems(2)]
  from Cons.prems(3) have err: "read_reply ?c (reads_issued ?c + length bs) = Inl err"
    by (simp add: reads_issued_snoc)
  show ?case
    unfolding Read_loop_step [OF i b] Cons.IH [OF len rest err]
    by (simp add: sum_x_def sum_y_def sum_z_def replicate_app_Cons_same add.assoc)
qed

subsection \<open>Rounding to float64\<close>

text \<open>
  \<open>floor_log2\<close> is the binary exponent, so \<open>f64_round\<close> returns a multiple of the unit in
  the last place of its argument, at most half a unit away from it, and leaves a number
  of 53 significant bits as it is.
\<close>

lemma floorlog_pos: "0 < n \<Longrightarrow> 0 < floorlog 2 n"
  by (simp add: floorlog_def)

lemma quotient_bounds:
  fixes p q :: nat
  assumes "0 < p" "0 < q"
  defines "d \<equiv> int (floorlog 2 p) - int (floorlog 2 q)"
  shows "(2::rat) powi (d - 1) \<le> of_nat p / of_nat q" and "(of_nat p / of_nat q :: rat) < 2 powi (d + 1)"
proof -
  let ?P = "floorlog 2 p" and ?Q = "floorlog 2 q"
  have P: "2 ^ (?P - 1) \<le> p" "p < 2 ^ ?P" and Q: "2 ^ (?Q - 1) \<le> q" "q < 2 ^ ?Q"
    using floorlog_bounds [of p 2] floorlog_bounds [of q 2] assms by simp_all
  have P1: "0 < ?P" and Q1: "0 < ?Q"
    using assms by (simp_all add: floorlog_pos)
  have rp: "(2::rat) ^ (?P - 1) \<le> of_nat p" "(of_nat p :: rat) < 2 ^ ?P"
    using P by (metis of_nat_le_iff of_nat_numeral of_nat_power, metis of_nat_less_iff of_nat_numeral of_nat_power)
  have rq: "(2::rat) ^ (?Q - 1) \<le> of_nat q" "(of_nat q :: rat) < 2 ^ ?Q"
    using Q by (metis of_nat_le_iff of_nat_numeral of_nat_power, metis of_nat_less_iff of_nat_numeral of_nat_power)
  have qpos: "(0::rat) < of_nat q" using assms by simp
  have "d - 1 = int (?P - 1) - int ?Q"
    using P1 by (simp add: d_def)
  then have lo: "(2::rat) powi (d - 1) = 2 ^ (?P - 1) / 2 ^ ?Q"
    by (simp add: power_int_diff)
  have "d + 1 = int ?P - int (?Q - 1)"
    using Q1 by (simp add: d_def)
  then have hi: "(2::rat) powi (d + 1) = 2 ^ ?P / 2 ^ (?Q - 1)"
    by (simp add: power_int_diff)
  have "(2::rat) ^ (?P - 1) / 2 ^ ?Q \<le> of_nat p / 2 ^ ?Q"
    using rp(1) by (simp add: divide_right_mono)
  also have "\<dots> \<le> of_nat p / of_nat q"
    using rq(2) qpos by (intro divide_left_mono) simp_all
  finally show "(2::rat) powi (d - 1) \<le> of_nat p / of_nat q"
    by (simp only: lo)
  have "(of_nat p :: rat) / of_nat q \<le> of_nat p / 2 ^ (?Q - 1)"
    using rq(1) qpos by (intro divide_left_mono mult_pos_pos) simp_all
  also have "\<dots> < 2 ^ ?P / 2 ^ (?Q - 1)"
    using rp(2) by (simp add: divide_strict_right_mono)
  finally show "(of_nat p / of_nat q :: rat) < 2 powi (d + 1)"
    by (simp only: hi)
qed

lemma floor_log2_bounds:
  assumes "0 < a"
  shows "2 powi floor_log2 a \<le> a" and "a < 2 powi (floor_log2 a + 1)"
proof -
  obtain p q where pq: "quotient_of a = (p, q)"
    by (cases "quotient_of a")
  then have q: "0 < q" and a: "a = of_int p / of_int q"
    by (simp_all add: quotient_of_denom_pos quotient_of_div)
  with assms have p: "0 < p"
    by (simp add: zero_less_divide_iff)
  define d where "d = int (floorlog 2 (nat p)) - int (floorlog 2 (nat q))"
  have a': "a = of_nat (nat p) / of_nat (nat q)"
    using p q a by simp
  have b: "2 powi (d - 1) \<le> a" "a < 2 powi (d + 1)"
    unfolding a' d_def using p q by (intro quotient_bounds; simp)+
  have fl: "floor_log2 a = (if 2 powi d \<le> a then d else d - 1)"
    by (simp add: floor_log2_def pq d_def Let_def)
  show "2 powi floor_log2 a \<le> a" and "a < 2 powi (floor_log2 a + 1)"
    using b by (simp_all add: fl)
qed

lemma power2_int_less_imp:
  assumes "(2::rat) powi m < 2 powi n"
  shows "m < n"
proof (rule ccontr)
  assume "\<not> m < n"
  then have "n \<le> m"
    by simp
  then have "(2::rat) powi n \<le> 2 powi m"
    by (intro power_int_increasing) simp_all
  with assms show False
    by simp
qed

lemma floor_log2_eqI:
  assumes "2 powi e \<le> a" and "a < 2 powi (e + 1)"
  shows "floor_log2 a = e"
proof -
  have "(0::rat) < 2 powi e"
    by simp
  from this assms(1) have pos: "0 < a"
    by (rule less_le_trans)
  let ?f = "floor_log2 a"
  have "(2::rat) powi e < 2 powi (?f + 1)"
    using assms(1) floor_log2_bounds(2) [OF pos] by (rule le_less_trans)
  then have "e < ?f + 1"
    by (rule power2_int_less_imp)
  moreover have "(2::rat) powi ?f < 2 powi (e + 1)"
    using floor_log2_bounds(1) [OF pos] assms(2) by (rule le_less_trans)
  then have "?f < e + 1"
    by (rule power2_int_less_imp)
  ultimately show ?thesis
    by simp
qed

lemma round_half_even_of_int: "round_half_even (of_int n) = n"
  by (simp add: round_half_even_def)

lemma round_half_even_near: "\<bar>of_int (round_half_even a) - a\<bar> \<le> 1 / 2"
proof -
  have "of_int \<lfloor>a\<rfloor> \<le> a" "a < of_int \<lfloor>a\<rfloor> + 1"
    by linarith+
  then show ?thesis
    by (auto simp: round_half_even_def Let_def)
qed

lemma f64_round_nearest:
  assumes "a \<noteq> 0"
  defines "u \<equiv> 2 powi (max (floor_log2 \<bar>a\<bar>) (- 1022) - 52)"
  shows "f64_round a = of_int (round_half_even (a / u)) * u"
    and "\<bar>f64_round a - a\<bar> \<le> u / 2"
proof -
  have u: "0 < u"
    by (simp add: u_def)
  show eq: "f64_round a = of_int (round_half_even (a / u)) * u"
    using assms(1) by (simp add: f64_round_def u_def Let_def)
  have "f64_round a - a = (of_int (round_half_even (a / u)) - a / u) * u"
    using u by (simp add: eq algebra_simps)
  then have "\<bar>f64_round a - a\<bar> = \<bar>of_int (round_half_even (a / u)) - a / u\<bar> * u"
    using u by (simp add: abs_mult)
  also have "\<dots> \<le> (1 / 2) * u"
    using u round_half_even_near [of "a / u"] by (intro mult_right_mono) simp_all
  finally show "\<bar>f64_round a - a\<bar> \<le> u / 2"
    by simp
qed

lemma f64_round_exact:
  assumes "2 powi e \<le> \<bar>a\<bar>" and "\<bar>a\<bar> < 2 powi (e + 1)" and "- 1022 \<le> e"
    and "a = of_int n * 2 powi (e - 52)"
  shows "f64_round a = a"
proof -
  have "(0::rat) < 2 powi e"
    by simp
  from this assms(1) have "0 < \<bar>a\<bar>"
    by (rule less_le_trans)
  then have "a \<noteq> 0"
    by simp
  moreover have "floor_log2 \<bar>a\<bar> = e"
    using assms(1,2) by (rule floor_log2_eqI)
  moreover have "a / 2 powi (e - 52) = of_int n"
    by (simp add: assms(4))
  ultimately show ?thesis
    using assms(3) by (simp add: f64_round_def round_half_even_of_int max_def assms(4) [symmetric])
qed

lemma round_half_even_eqI:
  assumes "\<bar>a - of_int n\<bar> < 1 / 2"
  shows "round_half_even a = n"
proof -
  have fl: "of_int \<lfloor>a\<rfloor> \<le> a" "a < of_int \<lfloor>a\<rfloor> + 1"
    by linarith+
  show ?thesis
  proof (cases "a - of_int \<lfloor>a\<rfloor> < 1 / 2")
    case True
    with assms fl have "of_int n - 1 < (of_int \<lfloor>a\<rfloor> :: rat)" "(of_int \<lfloor>a\<rfloor> :: rat) < of_int n + 1"
      by linarith+
    then have "n - 1 < \<lfloor>a\<rfloor>" "\<lfloor>a\<rfloor> < n + 1"
      by (metis of_int_1 of_int_diff of_int_less_iff, metis of_int_1 of_int_add of_int_less_iff)
    then have "\<lfloor>a\<rfloor> = n"
      by simp
    with True show ?thesis
      by (simp add: round_half_even_def Let_def)
  next
    case False
    with assms fl have "of_int n - 1 < (of_int (\<lfloor>a\<rfloor> + 1) :: rat)" "(of_int (\<lfloor>a\<rfloor> + 1) :: rat) < of_int n + 1"
      by (simp_all, linarith+)
    then have "n - 1 < \<lfloor>a\<rfloor> + 1" "\<lfloor>a\<rfloor> + 1 < n + 1"
      by (metis of_int_1 of_int_diff of_int_less_iff, metis of_int_1 of_int_add of_int_less_iff)
    then have n: "\<lfloor>a\<rfloor> + 1 = n"
      by simp
    have "a - of_int \<lfloor>a\<rfloor> \<noteq> 1 / 2"
      using assms n by (auto simp: abs_if split: if_splits)
    with False n show ?thesis
      by (simp add: round_half_even_def Let_def)
  qed
qed

lemma f64_round_eqI:
  assumes "2 powi e \<le> \<bar>a\<bar>" and "\<bar>a\<bar> < 2 powi (e + 1)" and "- 1022 \<le> e"
    and "\<bar>a / 2 powi (e - 52) - of_int n\<bar> < 1 / 2"
  shows "f64_round a = of_int n * 2 powi (e - 52)"
proof -
  have "(0::rat) < 2 powi e"
    by simp
  from this assms(1) have "0 < \<bar>a\<bar>"
    by (rule less_le_trans)
  then have "a \<noteq> 0"
    by simp
  moreover have "floor_log2 \<bar>a\<bar> = e"
    using assms(1,2) by (rule floor_log2_eqI)
  moreover have "round_half_even (a / 2 powi (e - 52)) = n"
    using assms(4) by (rule round_half_even_eqI)
  ultimately show ?thesis
    using assms(3) by (simp add: f64_round_def max_def)
qed

lemma f64_round_rel:
  assumes "2 powi (- 1022) \<le> \<bar>a\<bar>"
  shows "\<bar>f64_round a - a\<bar> \<le> \<bar>a\<bar> / 2 ^ 53"
proof -
  have "(0::rat) < 2 powi (- 1022)"
    by simp
  from this assms have pos: "0 < \<bar>a\<bar>"
    by (rule less_le_trans)
  then have nz: "a \<noteq> 0"
    by simp
  let ?f = "floor_log2 \<bar>a\<bar>"
  have "(2::rat) powi (- 1022) < 2 powi (?f + 1)"
    using assms floor_log2_bounds(2) [OF pos] by (rule le_less_trans)
  then have "- 1022 < ?f + 1"
    by (rule power2_int_less_imp)
  then have mx: "max ?f (- 1022) = ?f"
    by simp
  have "\<bar>f64_round a - a\<bar> \<le> 2 powi (?f - 52) / 2"
    using f64_round_nearest(2) [OF nz] by (simp only: mx)
  also have "(2::rat) powi (?f - 52) / 2 = 2 powi ?f / 2 ^ 53"
    by (simp add: power_int_diff)
  also have "\<dots> \<le> \<bar>a\<bar> / 2 ^ 53"
    using floor_log2_bounds(1) [OF pos] by (simp add: divide_right_mono)
  finally show ?thesis .
qed

lemma f64_round_tiny:
  assumes "\<bar>a\<bar> < 2 powi (- 1022)"
  shows "\<bar>f64_round a - a\<bar> \<le> 2 powi (- 1075)"
proof (cases "a = 0")
  case True
  then show ?thesis by (simp add: f64_round_def)
next
  case False
  then have pos: "0 < \<bar>a\<bar>"
    by simp
  let ?f = "floor_log2 \<bar>a\<bar>"
  have "(2::rat) powi ?f < 2 powi (- 1022)"
    using floor_log2_bounds(1) [OF pos] assms by (rule le_less_trans)
  then have "?f < - 1022"
    by (rule power2_int_less_imp)
  then have mx: "max ?f (- 1022) = - 1022"
    by simp
  have "\<bar>f64_round a - a\<bar> \<le> 2 powi (- 1022 - 52) / 2"
    using f64_round_nearest(2) [OF False] by (simp only: mx)
  also have "(2::rat) powi (- 1022 - 52) / 2 = 2 powi (- 1075)"
    using power_int_diff [of "2::rat" "- 1074" 1] by simp
  finally show ?thesis .
qed

lemma f64_round_nonneg:
  assumes "0 \<le> a"
  shows "0 \<le> f64_round a"
proof (cases "a = 0")
  case True
  then show ?thesis by (simp add: f64_round_def)
next
  case False
  define u :: rat where "u = 2 powi (max (floor_log2 \<bar>a\<bar>) (- 1022) - 52)"
  have u: "0 < u"
    by (simp add: u_def)
  with assms have "0 \<le> a / u"
    by simp
  then have "0 \<le> \<lfloor>a / u\<rfloor>"
    by simp
  then have "0 \<le> round_half_even (a / u)"
    by (simp add: round_half_even_def Let_def)
  with u show ?thesis
    unfolding f64_round_nearest(1) [OF False] u_def [symmetric] by simp
qed

lemma f64_round_nonpos:
  assumes "a \<le> 0"
  shows "f64_round a \<le> 0"
proof (cases "a = 0")
  case True
  then show ?thesis by (simp add: f64_round_def)
next
  case False
  define u :: rat where "u = 2 powi (max (floor_log2 \<bar>a\<bar>) (- 1022) - 52)"
  have u: "0 < u"
    by (simp add: u_def)
  with assms False have neg: "a / u < 0"
    by (simp add: divide_neg_pos)
  then have f: "\<lfloor>a / u\<rfloor> \<le> - 1"
    by (simp add: floor_le_iff)
  have "round_half_even (a / u) \<le> 0"
  proof -
    have "a / u - of_int \<lfloor>a / u\<rfloor> < 1"
      by linarith
    show ?thesis
      using f neg by (auto simp: round_half_even_def Let_def)
  qed
  with u show ?thesis
    unfolding f64_round_nearest(1) [OF False] u_def [symmetric]
    by (simp add: mult_le_0_iff)
qed

lemma f64_round_abs_le:
  assumes "\<bar>a\<bar> \<le> B" and "2 powi (- 1022) \<le> B"
  shows "\<bar>f64_round a\<bar> \<le> B * (1 + 1 / 2 ^ 53)"
proof (cases "2 powi (- 1022) \<le> \<bar>a\<bar>")
  case True
  have "\<bar>f64_round a\<bar> \<le> \<bar>a\<bar> + \<bar>f64_round a - a\<bar>"
    by simp
  also have "\<dots> \<le> \<bar>a\<bar> + \<bar>a\<bar> / 2 ^ 53"
    using f64_round_rel [OF True] by simp
  also have "\<dots> = \<bar>a\<bar> * (1 + 1 / 2 ^ 53)"
    by (simp add: algebra_simps)
  also have "\<dots> \<le> B * (1 + 1 / 2 ^ 53)"
    using assms(1) by (intro mult_right_mono) simp_all
  finally show ?thesis .
next
  case False
  then have small: "\<bar>a\<bar> < 2 powi (- 1022)"
    by simp
  have "\<bar>f64_round a\<bar> \<le> \<bar>a\<bar> + \<bar>f64_round a - a\<bar>"
    by simp
  also have "\<dots> \<le> 2 powi (- 1022) + 2 powi (- 1075)"
    using f64_round_tiny [OF small] small by simp
  also have "(2::rat) powi (- 1022) + 2 powi (- 1075) = 2 powi (- 1022) * (1 + 1 / 2 ^ 53)"
    using power_int_diff [of "2::rat" "- 1022" 53] by (simp add: algebra_simps)
  also have "\<dots> \<le> B * (1 + 1 / 2 ^ 53)"
    using assms(2) by (intro mult_right_mono) simp_all
  finally show ?thesis .
qed

lemma f64_round_ge:
  assumes "L \<le> a" and "2 powi (- 1022) \<le> L"
  shows "L * (1 - 1 / 2 ^ 53) \<le> f64_round a"
proof -
  have "(0::rat) < 2 powi (- 1022)"
    by simp
  with assms have a: "0 < a" "2 powi (- 1022) \<le> \<bar>a\<bar>"
    by linarith+
  have "a - f64_round a \<le> \<bar>f64_round a - a\<bar>"
    by simp
  also have "\<dots> \<le> a / 2 ^ 53"
    using f64_round_rel [OF a(2)] a(1) by simp
  finally have "a * (1 - 1 / 2 ^ 53) \<le> f64_round a"
    by (simp add: algebra_simps)
  moreover have "L * (1 - 1 / 2 ^ 53) \<le> a * (1 - 1 / 2 ^ 53)"
    using assms(1) by (intro mult_right_mono) simp_all
  ultimately show ?thesis
    by simp
qed

lemma f64_round_le_neg:
  assumes "a \<le> - L" and "2 powi (- 1022) \<le> L"
  shows "f64_round a \<le> - (L * (1 - 1 / 2 ^ 53))"
proof -
  have "(0::rat) < 2 powi (- 1022)"
    by simp
  with assms have a: "a < 0" "2 powi (- 1022) \<le> \<bar>a\<bar>"
    by linarith+
  have "f64_round a - a \<le> \<bar>f64_round a - a\<bar>"
    by simp
  also have "\<dots> \<le> - a / 2 ^ 53"
    using f64_round_rel [OF a(2)] a(1) by simp
  finally have "f64_round a \<le> a * (1 - 1 / 2 ^ 53)"
    by (simp add: algebra_simps)
  moreover have "a * (1 - 1 / 2 ^ 53) \<le> (- L) * (1 - 1 / 2 ^ 53)"
    using assms(1) by (intro mult_right_mono) simp_all
  ultimately show ?thesis
    by simp
qed

lemma f64_round_12000: "f64_round 12000 = 12000"
  by (rule f64_round_exact [where e = 13 and n = "12000 * 2 ^ 39"]) simp_all

lemma f64_round_1: "f64_round 1 = 1"
  by (rule f64_round_exact [where e = 0 and n = "2 ^ 52"]) simp_all

subsection \<open>The filtered read\<close>

lemma Read_loop_prefix:
  assumes "i + length bs \<le> numReadings"
    and "\<forall>j<length bs. read_reply c (reads_issued c + j) = Inr (bs ! j)"
  shows "Read_loop i (sx, sy, sz) c =
           Read_loop (i + length bs)
             (sx + word_of_int (sum_x bs), sy + word_of_int (sum_y bs),
              sz + word_of_int (sum_z bs))
             (c\<lparr>issued := issued c @ replicate (length bs) (ReadBlock 0x00 6)\<rparr>)"
  using assms
proof (induction bs arbitrary: i sx sy sz c)
  case Nil
  then show ?case
    by (simp add: sum_x_def sum_y_def sum_z_def)
next
  case (Cons b bs)
  from Cons.prems have i: "i < numReadings" and len: "(i + 1) + length bs \<le> numReadings"
    by simp_all
  from Cons.prems(2) have b: "read_reply c (reads_issued c) = Inr b"
    by fastforce
  note rest = replies_tail [OF Cons.prems(2)]
  show ?case
    unfolding Read_loop_step [OF i b] Cons.IH [OF len rest]
    by (simp add: sum_x_def sum_y_def sum_z_def replicate_app_Cons_same add.assoc)
qed

lemma int16_range:
  fixes h l :: int
  assumes "0 \<le> h" "h < 256" "0 \<le> l" "l < 256"
  shows "- 32768 \<le> (let n = 256 * h + l in if n < 32768 then n else n - 65536)"
    and "(let n = 256 * h + l in if n < 32768 then n else n - 65536) \<le> 32767"
  using assms by (auto simp: Let_def)

lemma int16_of_bytes_bounds: "- 32768 \<le> int16_of_bytes hi lo" "int16_of_bytes hi lo \<le> 32767"
proof -
  have "0 \<le> uint hi" "uint hi < 256" "0 \<le> uint lo" "uint lo < 256"
    using uint_lt2p [of hi] uint_lt2p [of lo] by simp_all
  then show "- 32768 \<le> int16_of_bytes hi lo" "int16_of_bytes hi lo \<le> 32767"
    unfolding int16_of_bytes_def by (rule int16_range)+
qed

lemma sum_list_bounds:
  fixes f :: "'a \<Rightarrow> int"
  assumes "\<And>b. lo \<le> f b" "\<And>b. f b \<le> hi"
  shows "lo * int (length bs) \<le> sum_list (map f bs)" "sum_list (map f bs) \<le> hi * int (length bs)"
proof -
  show "lo * int (length bs) \<le> sum_list (map f bs)"
  proof (induction bs)
    case Nil show ?case by simp
  next
    case (Cons b bs)
    with assms(1) [of b] show ?case by (simp add: algebra_simps)
  qed
  show "sum_list (map f bs) \<le> hi * int (length bs)"
  proof (induction bs)
    case Nil show ?case by simp
  next
    case (Cons b bs)
    with assms(2) [of b] show ?case by (simp add: algebra_simps)
  qed
qed

lemma sum_x_bounds: "- 32768 * int (length bs) \<le> sum_x bs" "sum_x bs \<le> 32767 * int (length bs)"
  unfolding sum_x_def block_x_def
  by (rule sum_list_bounds; rule int16_of_bytes_bounds)+

lemma sum_y_bounds: "- 32768 * int (length bs) \<le> sum_y bs" "sum_y bs \<le> 32767 * int (length bs)"
  unfolding sum_y_def block_y_def
  by (rule sum_list_bounds; rule int16_of_bytes_bounds)+

lemma sum_z_bounds: "- 32768 * int (length bs) \<le> sum_z bs" "sum_z bs \<le> 32767 * int (length bs)"
  unfolding sum_z_def block_z_def
  by (rule sum_list_bounds; rule int16_of_bytes_bounds)+

lemma sint_int32_exact:
  assumes "- 32768 * int n \<le> k" and "k \<le> 32767 * int n" and "n \<le> numReadings"
  shows "sint (word_of_int k :: int32) = k"
proof -
  have "int n \<le> 10"
    using assms(3) by (simp add: numReadings_def)
  then have "- (2 ^ 31) \<le> k" "k < 2 ^ 31"
    using assms(1,2) by simp_all
  then have "signed_take_bit 31 k = k"
    by (rule signed_take_bit_int_eq_self)
  then show ?thesis
    by (simp add: signed_of_int)
qed


lemma f64_of_int32_sum:
  assumes "- 32768 * int n \<le> k" and "k \<le> 32767 * int n" and "n \<le> numReadings"
  shows "f64_of_int32 (word_of_int k) = of_int k"
  by (simp add: f64_of_int32_def sint_int32_exact [OF assms])

lemma Read_ok:
  assumes "length bs = numReadings"
    and "\<forall>j<numReadings. read_reply c (reads_issued c + j) = Inr (bs ! j)"
  shows "Read q c =
           ((f64_div (f64_div (of_int (sum_x bs)) 10) (if rng q = 8 then 3000 else 12000),
             f64_div (f64_div (of_int (sum_y bs)) 10) (if rng q = 8 then 3000 else 12000),
             f64_div (f64_div (of_int (sum_z bs)) 10) (if rng q = 8 then 3000 else 12000), None),
            c\<lparr>issued := issued c @ replicate 10 (ReadBlock 0x00 6)\<rparr>)"
proof -
  have len: "0 + length bs = numReadings"
    using assms(1) by simp
  have rep: "\<forall>j<length bs. read_reply c (reads_issued c + j) = Inr (bs ! j)"
    using assms by simp
  have n: "length bs \<le> numReadings"
    using assms(1) by simp
  have ten: "length bs = 10"
    using assms(1) by (simp add: numReadings_def)
  note fx = f64_of_int32_sum [OF sum_x_bounds n]
    and fy = f64_of_int32_sum [OF sum_y_bounds n]
    and fz = f64_of_int32_sum [OF sum_z_bounds n]
  show ?thesis
    unfolding Read_def Read_loop_ok [OF len rep]
    by (simp add: fx fy fz ten numReadings_def)
qed

text \<open>
  C1. For a driver configured with range 2 or 8 and ten raw reads that all succeed, with
  the 6-byte blocks \<open>bs\<close>, the filtered read issues exactly ten block reads and returns no
  error and, per axis, the exact sum of the ten raw values divided by 10 and then by the
  scale, 12000 at range 2 and 3000 at range 8, both divisions being those of \<open>float64\<close>.
\<close>

theorem Read_filtered:
  assumes "length bs = numReadings"
    and "\<forall>j<numReadings. read_reply c (reads_issued c + j) = Inr (bs ! j)"
    and "\<forall>b\<in>set bs. length b = 6"
    and "rng q = 2 \<and> scale = 12000 \<or> rng q = 8 \<and> scale = 3000"
  shows "Read q c =
           ((f64_div (f64_div (of_int (sum_x bs)) 10) scale,
             f64_div (f64_div (of_int (sum_y bs)) 10) scale,
             f64_div (f64_div (of_int (sum_z bs)) 10) scale, None),
            c\<lparr>issued := issued c @ replicate 10 (ReadBlock qmc5883lRegX 6)\<rparr>)"
  using assms(4) unfolding Read_ok [OF assms(1,2)]
  by (auto simp: qmc5883lRegX_def)

lemma sum_x_replicate: "sum_x (replicate n b) = int n * block_x b"
  by (simp add: sum_x_def sum_list_replicate)

lemma sum_y_replicate: "sum_y (replicate n b) = int n * block_y b"
  by (simp add: sum_y_def sum_list_replicate)

lemma sum_z_replicate: "sum_z (replicate n b) = int n * block_z b"
  by (simp add: sum_z_def sum_list_replicate)

lemma f64_round_0: "f64_round 0 = 0"
  by (simp add: f64_round_def)

theorem Read_filtered_witness:
  "Read \<lparr>odr = 50, rng = 2, osr = 0x00, mode = 0x01\<rparr>
     (fresh_connection (\<lambda>k. Inr [0x2E, 0xE0, 0x00, 0x00, 0x00, 0x00]) (\<lambda>k. None)) =
   ((1, 0, 0, None),
    \<lparr>read_reply = (\<lambda>k. Inr [0x2E, 0xE0, 0x00, 0x00, 0x00, 0x00]), write_reply = (\<lambda>k. None),
     issued = replicate 10 (ReadBlock 0x00 6)\<rparr>)"
  using Read_filtered
    [of "replicate 10 [0x2E, 0xE0, 0x00, 0x00, 0x00, 0x00]"
        "fresh_connection (\<lambda>k. Inr [0x2E, 0xE0, 0x00, 0x00, 0x00, 0x00]) (\<lambda>k. None)"
        "\<lparr>odr = 50, rng = 2, osr = 0x00, mode = 0x01\<rparr>" 12000]
  by (simp add: fresh_connection_def numReadings_def qmc5883lRegX_def sum_x_replicate
      sum_y_replicate sum_z_replicate block_x_def block_y_def block_z_def int16_of_bytes_def
      f64_div_def f64_round_12000 f64_round_1 f64_round_0)

text \<open>
  C5. When the raw read number \<open>k\<close> of a filtered read (counting from 0, \<open>k < 10\<close>) is the
  first to fail, with the error \<open>err\<close>, \<open>Read\<close> returns that error with \<open>x = y = z = 0\<close>
  and has issued exactly \<open>k + 1\<close> block reads: none follows the failed one.
\<close>

theorem Read_aborts_on_bus_error:
  assumes "k < numReadings"
    and "\<forall>j<k. \<exists>b. read_reply c (reads_issued c + j) = Inr b"
    and "read_reply c (reads_issued c + k) = Inl err"
  shows "Read q c =
           ((0, 0, 0, Some err),
            c\<lparr>issued := issued c @ replicate (k + 1) (ReadBlock qmc5883lRegX 6)\<rparr>)"
proof -
  from assms(2) obtain f where f: "\<forall>j<k. read_reply c (reads_issued c + j) = Inr (f j)"
    by metis
  define bs where "bs = map f [0..<k]"
  have len: "length bs = k"
    by (simp add: bs_def)
  have i: "0 + length bs < numReadings"
    using assms(1) len by simp
  have rep: "\<forall>j<length bs. read_reply c (reads_issued c + j) = Inr (bs ! j)"
    using f by (simp add: bs_def)
  have err: "read_reply c (reads_issued c + length bs) = Inl err"
    using assms(3) len by simp
  show ?thesis
    unfolding Read_def Read_loop_abort [OF i rep err]
    by (simp add: len qmc5883lRegX_def)
qed

theorem Read_aborts_on_bus_error_witness:
  "Read \<lparr>odr = 50, rng = 2, osr = 0x00, mode = 0x01\<rparr>
     (fresh_connection
        (\<lambda>k. if k = 3 then Inl (Error ''read failed'') else Inr [0x2E, 0xE0, 0x00, 0x00, 0x00, 0x00])
        (\<lambda>k. None)) =
   ((0, 0, 0, Some (Error ''read failed'')),
    \<lparr>read_reply =
       (\<lambda>k. if k = 3 then Inl (Error ''read failed'') else Inr [0x2E, 0xE0, 0x00, 0x00, 0x00, 0x00]),
     write_reply = (\<lambda>k. None),
     issued = [ReadBlock 0x00 6, ReadBlock 0x00 6, ReadBlock 0x00 6, ReadBlock 0x00 6]\<rparr>)"
  using Read_aborts_on_bus_error
    [of 3
        "fresh_connection
           (\<lambda>k. if k = 3 then Inl (Error ''read failed'') else Inr [0x2E, 0xE0, 0x00, 0x00, 0x00, 0x00])
           (\<lambda>k. None)"
        "Error ''read failed''" "\<lparr>odr = 50, rng = 2, osr = 0x00, mode = 0x01\<rparr>"]
  by (simp add: fresh_connection_def numReadings_def qmc5883lRegX_def reads_issued_def
      numeral_eq_Suc)

text \<open>
  C9. With ten successful raw reads, the loop of \<open>Read\<close> reaches each of its
  iterations \<open>k \<le> 10\<close> with the three \<open>int32\<close> sums holding, without wrap-around, the exact
  sums of the first \<open>k\<close> raw values: these lie between \<open>-32768 k\<close> and \<open>32767 k\<close>, inside the
  range of \<open>int32\<close>. The loop ends with the exact sums of the ten samples, and \<open>Read\<close>
  returns, per axis, the average that is this exact sum divided by 10 in \<open>float64\<close>,
  divided by the scale of the configured range.
\<close>

theorem Read_sums_exact:
  assumes "length bs = numReadings"
    and "\<forall>j<numReadings. read_reply c (reads_issued c + j) = Inr (bs ! j)"
    and "\<forall>b\<in>set bs. length b = 6"
    and "k \<le> numReadings"
  shows "Read_loop 0 (0, 0, 0) c =
           Read_loop k
             (word_of_int (sum_x (take k bs)), word_of_int (sum_y (take k bs)),
              word_of_int (sum_z (take k bs)))
             (c\<lparr>issued := issued c @ replicate k (ReadBlock qmc5883lRegX 6)\<rparr>) \<and>
         sint (word_of_int (sum_x (take k bs)) :: int32) = sum_x (take k bs) \<and>
         sint (word_of_int (sum_y (take k bs)) :: int32) = sum_y (take k bs) \<and>
         sint (word_of_int (sum_z (take k bs)) :: int32) = sum_z (take k bs) \<and>
         - (2 ^ 31) < - 32768 * int k \<and> - 32768 * int k \<le> sum_x (take k bs) \<and>
         - 32768 * int k \<le> sum_y (take k bs) \<and> - 32768 * int k \<le> sum_z (take k bs) \<and>
         sum_x (take k bs) \<le> 32767 * int k \<and> sum_y (take k bs) \<le> 32767 * int k \<and>
         sum_z (take k bs) \<le> 32767 * int k \<and> 32767 * int k < 2 ^ 31 \<and>
         Read_loop 0 (0, 0, 0) c =
           (((word_of_int (sum_x bs), word_of_int (sum_y bs), word_of_int (sum_z bs)), None),
            c\<lparr>issued := issued c @ replicate 10 (ReadBlock qmc5883lRegX 6)\<rparr>) \<and>
         Read q c =
           ((f64_div (f64_round (of_int (sum_x bs) / 10)) (if rng q = 8 then 3000 else 12000),
             f64_div (f64_round (of_int (sum_y bs) / 10)) (if rng q = 8 then 3000 else 12000),
             f64_div (f64_round (of_int (sum_z bs) / 10)) (if rng q = 8 then 3000 else 12000),
             None),
            c\<lparr>issued := issued c @ replicate 10 (ReadBlock qmc5883lRegX 6)\<rparr>)"
proof -
  let ?p = "take k bs"
  have lenp: "length ?p = k"
    using assms(1,4) by simp
  have n: "length ?p \<le> numReadings" "length bs \<le> numReadings"
    using assms(1,4) by simp_all
  have i: "0 + length ?p \<le> numReadings"
    using n by simp
  have rep: "\<forall>j<length ?p. read_reply c (reads_issued c + j) = Inr (?p ! j)"
    using assms(2,4) by simp
  have len: "0 + length bs = numReadings"
    using assms(1) by simp
  have repall: "\<forall>j<length bs. read_reply c (reads_issued c + j) = Inr (bs ! j)"
    using assms(1,2) by simp
  have k10: "int k \<le> 10" and ten: "length bs = 10"
    using assms(1,4) by (simp_all add: numReadings_def)
  have state: "Read_loop 0 (0, 0, 0) c =
           Read_loop k
             (word_of_int (sum_x ?p), word_of_int (sum_y ?p), word_of_int (sum_z ?p))
             (c\<lparr>issued := issued c @ replicate k (ReadBlock qmc5883lRegX 6)\<rparr>)"
    unfolding Read_loop_prefix [OF i rep] using lenp by (simp add: qmc5883lRegX_def)
  have final: "Read_loop 0 (0, 0, 0) c =
           (((word_of_int (sum_x bs), word_of_int (sum_y bs), word_of_int (sum_z bs)), None),
            c\<lparr>issued := issued c @ replicate 10 (ReadBlock qmc5883lRegX 6)\<rparr>)"
    unfolding Read_loop_ok [OF len repall] by (simp add: ten qmc5883lRegX_def)
  have sx: "sint (word_of_int (sum_x ?p) :: int32) = sum_x ?p"
    and sy: "sint (word_of_int (sum_y ?p) :: int32) = sum_y ?p"
    and sz: "sint (word_of_int (sum_z ?p) :: int32) = sum_z ?p"
    by (rule sint_int32_exact [OF sum_x_bounds n(1)] sint_int32_exact [OF sum_y_bounds n(1)]
        sint_int32_exact [OF sum_z_bounds n(1)])+
  have bx: "- 32768 * int k \<le> sum_x ?p" "sum_x ?p \<le> 32767 * int k"
    and "by": "- 32768 * int k \<le> sum_y ?p" "sum_y ?p \<le> 32767 * int k"
    and bz: "- 32768 * int k \<le> sum_z ?p" "sum_z ?p \<le> 32767 * int k"
    using sum_x_bounds [of ?p] sum_y_bounds [of ?p] sum_z_bounds [of ?p] by (simp_all add: lenp)
  have range: "- (2 ^ 31) < - 32768 * int k" "32767 * int k < 2 ^ 31"
    using k10 by simp_all
  have avg: "Read q c =
           ((f64_div (f64_round (of_int (sum_x bs) / 10)) (if rng q = 8 then 3000 else 12000),
             f64_div (f64_round (of_int (sum_y bs) / 10)) (if rng q = 8 then 3000 else 12000),
             f64_div (f64_round (of_int (sum_z bs) / 10)) (if rng q = 8 then 3000 else 12000),
             None),
            c\<lparr>issued := issued c @ replicate 10 (ReadBlock qmc5883lRegX 6)\<rparr>)"
    unfolding Read_ok [OF assms(1,2)] by (simp add: f64_div_def qmc5883lRegX_def)
  show ?thesis
    using state final sx sy sz bx "by" bz range avg by blast
qed


lemma f64_round_32767: "f64_round 32767 = 32767"
  by (rule f64_round_exact [where e = 14 and n = "32767 * 2 ^ 38"]) simp_all

lemma f64_round_m32768: "f64_round (- 32768) = - 32768"
  by (rule f64_round_exact [where e = 15 and n = "- (2 ^ 52)"]) simp_all

lemma f64_round_m1: "f64_round (- 1) = - 1"
  by (rule f64_round_exact [where e = 0 and n = "- (2 ^ 52)"]) simp_all

theorem Read_sums_exact_witness:
  "Read_loop 0 (0, 0, 0)
     (fresh_connection (\<lambda>k. Inr [0x7F, 0xFF, 0x80, 0x00, 0xFF, 0xFF]) (\<lambda>k. None)) =
     (((327670, - 327680, - 10), None),
      \<lparr>read_reply = (\<lambda>k. Inr [0x7F, 0xFF, 0x80, 0x00, 0xFF, 0xFF]), write_reply = (\<lambda>k. None),
       issued = replicate 10 (ReadBlock 0x00 6)\<rparr>) \<and>
   sum_x (replicate 10 [0x7F, 0xFF, 0x80, 0x00, 0xFF, 0xFF]) = 327670 \<and>
   sum_y (replicate 10 [0x7F, 0xFF, 0x80, 0x00, 0xFF, 0xFF]) = - 327680 \<and>
   sum_z (replicate 10 [0x7F, 0xFF, 0x80, 0x00, 0xFF, 0xFF]) = - 10 \<and>
   sint (327670 :: int32) = 327670 \<and> sint (- 327680 :: int32) = - 327680 \<and>
   sint (- 10 :: int32) = - 10 \<and>
   Read \<lparr>odr = 50, rng = 8, osr = 0x00, mode = 0x01\<rparr>
     (fresh_connection (\<lambda>k. Inr [0x7F, 0xFF, 0x80, 0x00, 0xFF, 0xFF]) (\<lambda>k. None)) =
     ((f64_div 32767 3000, f64_div (- 32768) 3000, f64_div (- 1) 3000, None),
      \<lparr>read_reply = (\<lambda>k. Inr [0x7F, 0xFF, 0x80, 0x00, 0xFF, 0xFF]), write_reply = (\<lambda>k. None),
       issued = replicate 10 (ReadBlock 0x00 6)\<rparr>)"
  using Read_sums_exact
    [of "replicate 10 [0x7F, 0xFF, 0x80, 0x00, 0xFF, 0xFF]"
        "fresh_connection (\<lambda>k. Inr [0x7F, 0xFF, 0x80, 0x00, 0xFF, 0xFF]) (\<lambda>k. None)" 10
        "\<lparr>odr = 50, rng = 8, osr = 0x00, mode = 0x01\<rparr>"]
  by (simp add: fresh_connection_def numReadings_def qmc5883lRegX_def sum_x_replicate
      sum_y_replicate sum_z_replicate block_x_def block_y_def block_z_def int16_of_bytes_def
      f64_round_32767 f64_round_m32768 f64_round_m1 Read_loop_done)

subsection \<open>Initialization\<close>

lemma index_ODR:
  "index qmc5883lODRBits k =
     (if k = 10 then 0x00 else if k = 50 then 0x04 else if k = 100 then 0x08
      else if k = 200 then 0x0C else 0x00)"
  by (simp add: index_def qmc5883lODRBits_def qmc5883l_consts)

lemma index_RNG:
  "index qmc5883lRNGBits k = (if k = 2 then 0x00 else if k = 8 then 0x10 else 0x00)"
  by (simp add: index_def qmc5883lRNGBits_def qmc5883l_consts)

lemma index_OSR:
  "index qmc5883lOSRBits k =
     (if k = 512 then 0x00 else if k = 256 then 0x40 else if k = 128 then 0x80
      else if k = 64 then 0xC0 else 0x00)"
  by (simp add: index_def qmc5883lOSRBits_def qmc5883l_consts)

text \<open>
  C2. From any configuration, \<open>initialize\<close> writes the soft reset \<open>0x80\<close> to control
  register 2, then \<open>mode | odrBits | rngBits | osrBits\<close> to control register 1, then the
  roll-over bit \<open>0x40\<close> to control register 2, and returns the result of the last write.
  A write that fails ends the sequence: its error is returned and no later write is
  issued.
\<close>

theorem initialize_sequence:
  fixes q :: QMC5883LDriver and c :: connection
  defines "n \<equiv> writes_issued c"
  defines "w1 \<equiv> WriteByte qmc5883lRegCtrl2 0x80"
  defines "w2 \<equiv> WriteByte qmc5883lRegCtrl1
                   (mode q OR index qmc5883lODRBits (odr q) OR index qmc5883lRNGBits (rng q) OR osr q)"
  defines "w3 \<equiv> WriteByte qmc5883lRegCtrl2 0x40"
  shows "(write_reply c n = None \<and> write_reply c (n + 1) = None \<longrightarrow>
            initialize q c = (write_reply c (n + 2), c\<lparr>issued := issued c @ [w1, w2, w3]\<rparr>)) \<and>
         (\<forall>err. write_reply c n = Some err \<longrightarrow>
            initialize q c = (Some err, c\<lparr>issued := issued c @ [w1]\<rparr>)) \<and>
         (\<forall>err. write_reply c n = None \<and> write_reply c (n + 1) = Some err \<longrightarrow>
            initialize q c = (Some err, c\<lparr>issued := issued c @ [w1, w2]\<rparr>))"
  unfolding n_def w1_def w2_def w3_def
  by (simp add: initialize_def WriteByteData_def writes_issued_def ctrl1_def
      qmc5883lCtrl2_SOFT_RST_def qmc5883lCtrl2_ROL_PNT_def Let_def)

theorem initialize_sequence_witness:
  "initialize \<lparr>odr = 200, rng = 8, osr = 0xC0, mode = 0x01\<rparr>
     (fresh_connection (\<lambda>k. Inl (Error ''no data'')) (\<lambda>k. None)) =
     (None,
      \<lparr>read_reply = (\<lambda>k. Inl (Error ''no data'')), write_reply = (\<lambda>k. None),
       issued = [WriteByte 0x0A 0x80, WriteByte 0x09 0xDD, WriteByte 0x0A 0x40]\<rparr>) \<and>
   initialize \<lparr>odr = 200, rng = 8, osr = 0xC0, mode = 0x01\<rparr>
     (fresh_connection (\<lambda>k. Inl (Error ''no data''))
        (\<lambda>k. if k = 0 then Some (Error ''write failed'') else None)) =
     (Some (Error ''write failed''),
      \<lparr>read_reply = (\<lambda>k. Inl (Error ''no data'')),
       write_reply = (\<lambda>k. if k = 0 then Some (Error ''write failed'') else None),
       issued = [WriteByte 0x0A 0x80]\<rparr>) \<and>
   initialize \<lparr>odr = 200, rng = 8, osr = 0xC0, mode = 0x01\<rparr>
     (fresh_connection (\<lambda>k. Inl (Error ''no data''))
        (\<lambda>k. if k = 1 then Some (Error ''write failed'') else None)) =
     (Some (Error ''write failed''),
      \<lparr>read_reply = (\<lambda>k. Inl (Error ''no data'')),
       write_reply = (\<lambda>k. if k = 1 then Some (Error ''write failed'') else None),
       issued = [WriteByte 0x0A 0x80, WriteByte 0x09 0xDD]\<rparr>)"
  using
    initialize_sequence
      [of "fresh_connection (\<lambda>k. Inl (Error ''no data'')) (\<lambda>k. None)"
          "\<lparr>odr = 200, rng = 8, osr = 0xC0, mode = 0x01\<rparr>"]
    initialize_sequence
      [of "fresh_connection (\<lambda>k. Inl (Error ''no data''))
             (\<lambda>k. if k = 0 then Some (Error ''write failed'') else None)"
          "\<lparr>odr = 200, rng = 8, osr = 0xC0, mode = 0x01\<rparr>"]
    initialize_sequence
      [of "fresh_connection (\<lambda>k. Inl (Error ''no data''))
             (\<lambda>k. if k = 1 then Some (Error ''write failed'') else None)"
          "\<lparr>odr = 200, rng = 8, osr = 0xC0, mode = 0x01\<rparr>"]
  by (simp add: fresh_connection_def writes_issued_def qmc5883lRegCtrl1_def
      qmc5883lRegCtrl2_def index_ODR index_RNG)

subsection \<open>Validation and the option setters\<close>

lemma dom_ODR: "dom qmc5883lODRBits = {10, 50, 100, 200}"
  by (auto simp: qmc5883lODRBits_def dom_def split: if_splits)

lemma dom_RNG: "dom qmc5883lRNGBits = {2, 8}"
  by (auto simp: qmc5883lRNGBits_def dom_def split: if_splits)

lemma dom_OSR: "dom qmc5883lOSRBits = {512, 256, 128, 64}"
  by (auto simp: qmc5883lOSRBits_def dom_def split: if_splits)

lemma sort_range_order:
  fixes ks :: "'a::len word list"
  assumes "range_order m ks" and "sorted xs" and "distinct xs" and "set xs = uint ` dom m"
  shows "sort (map uint ks) = xs"
proof -
  have "inj_on uint (set ks)"
    by (rule inj_onI) (simp add: word_uint_eq_iff)
  then have "distinct (map uint ks)"
    using assms(1) by (simp add: range_order_def distinct_map)
  then have "distinct (sort (map uint ks))"
    by simp
  moreover have "set (sort (map uint ks)) = set xs"
    using assms(1,4) by (simp add: range_order_def)
  ultimately show ?thesis
    using assms(2,3) by (intro sorted_distinct_set_unique) simp_all
qed

lemma sort_ODR_keys:
  "range_order qmc5883lODRBits ks \<Longrightarrow> sort (map uint ks) = [10, 50, 100, 200]"
  by (erule sort_range_order) (simp_all add: dom_ODR)

lemma sort_RNG_keys:
  "range_order qmc5883lRNGBits ks \<Longrightarrow> sort (map uint ks) = [2, 8]"
  by (erule sort_range_order) (simp_all add: dom_RNG)

lemma sort_OSR_keys:
  "range_order qmc5883lOSRBits ks \<Longrightarrow> sort (map uint ks) = [64, 128, 256, 512]"
  by (erule sort_range_order) (auto simp: dom_OSR)

lemma format_ODR_keys: "format_ints [10, 50, 100, 200] = ''[10 50 100 200]''"
  by (simp add: format_ints_def format_int_def digit_def)

lemma format_RNG_keys: "format_ints [2, 8] = ''[2 8]''"
  by (simp add: format_ints_def format_int_def digit_def)

lemma format_OSR_keys: "format_ints [64, 128, 256, 512] = ''[64 128 256 512]''"
  by (simp add: format_ints_def format_int_def digit_def)

lemma ValidateODR_eq:
  assumes "range_order qmc5883lODRBits ks"
  shows "qmc5883lValidateODR ks val =
           (if val \<in> {10, 50, 100, 200} then None
            else Some (Error ''ODR must be one of: [10 50 100 200]''))"
proof (cases "val \<in> dom qmc5883lODRBits")
  case True
  then show ?thesis
    by (auto simp: qmc5883lValidateODR_def dom_ODR [symmetric])
next
  case False
  then have "qmc5883lODRBits val = None"
    by (simp add: domIff)
  with False show ?thesis
    by (simp add: qmc5883lValidateODR_def sort_ODR_keys [OF assms] format_ODR_keys
        dom_ODR)
qed

lemma ValidateRNG_eq:
  assumes "range_order qmc5883lRNGBits ks"
  shows "qmc5883lValidateRNG ks val =
           (if val \<in> {2, 8} then None else Some (Error ''RNG must be one of: [2 8]''))"
proof (cases "val \<in> dom qmc5883lRNGBits")
  case True
  then show ?thesis
    by (auto simp: qmc5883lValidateRNG_def dom_RNG [symmetric])
next
  case False
  then have "qmc5883lRNGBits val = None"
    by (simp add: domIff)
  with False show ?thesis
    by (simp add: qmc5883lValidateRNG_def sort_RNG_keys [OF assms] format_RNG_keys
        dom_RNG)
qed

lemma ValidateOSR_eq:
  assumes "range_order qmc5883lOSRBits ks"
  shows "qmc5883lValidateOSR ks val =
           (if val \<in> {512, 256, 128, 64} then None
            else Some (Error ''OSR must be one of: [64 128 256 512]''))"
proof (cases "val \<in> dom qmc5883lOSRBits")
  case True
  then show ?thesis
    by (auto simp: qmc5883lValidateOSR_def dom_OSR [symmetric])
next
  case False
  then have "qmc5883lOSRBits val = None"
    by (simp add: domIff)
  with False show ?thesis
    by (simp add: qmc5883lValidateOSR_def sort_OSR_keys [OF assms] format_OSR_keys
        dom_OSR)
qed

lemma table_entries:
  "qmc5883lODRBits 10 = Some 0x00" "qmc5883lODRBits 50 = Some 0x04"
  "qmc5883lODRBits 100 = Some 0x08" "qmc5883lODRBits 200 = Some 0x0C"
  "qmc5883lRNGBits 2 = Some 0x00" "qmc5883lRNGBits 8 = Some 0x10"
  "qmc5883lOSRBits 512 = Some 0x00" "qmc5883lOSRBits 256 = Some 0x40"
  "qmc5883lOSRBits 128 = Some 0x80" "qmc5883lOSRBits 64 = Some 0xC0"
  by (simp_all add: qmc5883lODRBits_def qmc5883lRNGBits_def qmc5883lOSRBits_def qmc5883l_consts)

text \<open>
  C3. Whatever the order in which the runtime ranges over the keys of the three tables:
  an output data rate among 10, 50, 100, 200 validates and its table entry is the
  documented bit pattern (\<open>0x00\<close>, \<open>0x04\<close>, \<open>0x08\<close>, \<open>0x0C\<close>), and any other value is
  refused with the message listing \<open>10 50 100 200\<close> in ascending order; likewise for the
  range (2, 8 with \<open>0x00\<close>, \<open>0x10\<close>) and the oversampling ratio (512, 256, 128, 64 with
  \<open>0x00\<close>, \<open>0x40\<close>, \<open>0x80\<close>, \<open>0xC0\<close>, listed as \<open>64 128 256 512\<close>).
\<close>

theorem validators_legal_values:
  assumes "range_order qmc5883lODRBits ks1"
    and "range_order qmc5883lRNGBits ks2"
    and "range_order qmc5883lOSRBits ks3"
  shows "(v1 \<in> {10, 50, 100, 200} \<longrightarrow> qmc5883lValidateODR ks1 v1 = None) \<and>
         (v1 \<notin> {10, 50, 100, 200} \<longrightarrow>
            qmc5883lValidateODR ks1 v1 = Some (Error ''ODR must be one of: [10 50 100 200]'')) \<and>
         qmc5883lODRBits 10 = Some 0x00 \<and> qmc5883lODRBits 50 = Some 0x04 \<and>
         qmc5883lODRBits 100 = Some 0x08 \<and> qmc5883lODRBits 200 = Some 0x0C \<and>
         (v2 \<in> {2, 8} \<longrightarrow> qmc5883lValidateRNG ks2 v2 = None) \<and>
         (v2 \<notin> {2, 8} \<longrightarrow>
            qmc5883lValidateRNG ks2 v2 = Some (Error ''RNG must be one of: [2 8]'')) \<and>
         qmc5883lRNGBits 2 = Some 0x00 \<and> qmc5883lRNGBits 8 = Some 0x10 \<and>
         (v3 \<in> {512, 256, 128, 64} \<longrightarrow> qmc5883lValidateOSR ks3 v3 = None) \<and>
         (v3 \<notin> {512, 256, 128, 64} \<longrightarrow>
            qmc5883lValidateOSR ks3 v3 = Some (Error ''OSR must be one of: [64 128 256 512]'')) \<and>
         qmc5883lOSRBits 512 = Some 0x00 \<and> qmc5883lOSRBits 256 = Some 0x40 \<and>
         qmc5883lOSRBits 128 = Some 0x80 \<and> qmc5883lOSRBits 64 = Some 0xC0"
  unfolding ValidateODR_eq [OF assms(1)] ValidateRNG_eq [OF assms(2)] ValidateOSR_eq [OF assms(3)]
    table_entries
  by simp

lemma range_order_examples:
  "range_order qmc5883lODRBits [200, 10, 100, 50]"
  "range_order qmc5883lRNGBits [8, 2]"
  "range_order qmc5883lOSRBits [64, 512, 128, 256]"
  by (auto simp: range_order_def dom_ODR dom_RNG dom_OSR)

theorem validators_legal_values_witness:
  "range_order qmc5883lODRBits [200, 10, 100, 50] \<and>
   range_order qmc5883lRNGBits [8, 2] \<and>
   range_order qmc5883lOSRBits [64, 512, 128, 256] \<and>
   qmc5883lValidateODR [200, 10, 100, 50] 100 = None \<and>
   qmc5883lValidateODR [200, 10, 100, 50] 60 =
     Some (Error ''ODR must be one of: [10 50 100 200]'') \<and>
   qmc5883lValidateRNG [8, 2] 8 = None \<and>
   qmc5883lValidateRNG [8, 2] 4 = Some (Error ''RNG must be one of: [2 8]'') \<and>
   qmc5883lValidateOSR [64, 512, 128, 256] 256 = None \<and>
   qmc5883lValidateOSR [64, 512, 128, 256] 1024 =
     Some (Error ''OSR must be one of: [64 128 256 512]'')"
  using
    validators_legal_values [OF range_order_examples, of 100 8 256]
    validators_legal_values [OF range_order_examples, of 60 4 1024]
    range_order_examples
  by simp

text \<open>
  C6. Applied to a QMC5883L driver \<open>d\<close>, each option setter either stores its legal value
  in its own field and changes nothing else (the oversampling ratio is stored as its
  bit pattern), or panics with the validator's error and leaves \<open>d\<close> as it was.
\<close>

theorem option_setters_fail_fast:
  assumes "range_order qmc5883lODRBits ks1"
    and "range_order qmc5883lRNGBits ks2"
    and "range_order qmc5883lOSRBits ks3"
  shows "(v1 \<in> {10, 50, 100, 200} \<longrightarrow>
            WithQMC5883LODR ks1 v1 (QMC5883L d) = (None, QMC5883L (d\<lparr>odr := v1\<rparr>))) \<and>
         (v1 \<notin> {10, 50, 100, 200} \<longrightarrow>
            WithQMC5883LODR ks1 v1 (QMC5883L d) =
              (Some (Error ''ODR must be one of: [10 50 100 200]''), QMC5883L d)) \<and>
         (v2 \<in> {2, 8} \<longrightarrow>
            WithQMC5883LRNG ks2 v2 (QMC5883L d) = (None, QMC5883L (d\<lparr>rng := v2\<rparr>))) \<and>
         (v2 \<notin> {2, 8} \<longrightarrow>
            WithQMC5883LRNG ks2 v2 (QMC5883L d) =
              (Some (Error ''RNG must be one of: [2 8]''), QMC5883L d)) \<and>
         (v3 \<in> {512, 256, 128, 64} \<longrightarrow>
            WithQMC5883LOSR ks3 v3 (QMC5883L d) =
              (None, QMC5883L (d\<lparr>osr := (if v3 = 512 then 0x00 else if v3 = 256 then 0x40
                                         else if v3 = 128 then 0x80 else 0xC0)\<rparr>))) \<and>
         (v3 \<notin> {512, 256, 128, 64} \<longrightarrow>
            WithQMC5883LOSR ks3 v3 (QMC5883L d) =
              (Some (Error ''OSR must be one of: [64 128 256 512]''), QMC5883L d))"
  unfolding WithQMC5883LODR_def WithQMC5883LRNG_def WithQMC5883LOSR_def
    ValidateODR_eq [OF assms(1)] ValidateRNG_eq [OF assms(2)] ValidateOSR_eq [OF assms(3)]
  by (simp add: index_OSR)

theorem option_setters_fail_fast_witness:
  "WithQMC5883LODR [200, 10, 100, 50] 200 (QMC5883L \<lparr>odr = 50, rng = 2, osr = 0x00, mode = 0x01\<rparr>) =
     (None, QMC5883L \<lparr>odr = 200, rng = 2, osr = 0x00, mode = 0x01\<rparr>) \<and>
   WithQMC5883LODR [200, 10, 100, 50] 60 (QMC5883L \<lparr>odr = 50, rng = 2, osr = 0x00, mode = 0x01\<rparr>) =
     (Some (Error ''ODR must be one of: [10 50 100 200]''),
      QMC5883L \<lparr>odr = 50, rng = 2, osr = 0x00, mode = 0x01\<rparr>) \<and>
   WithQMC5883LRNG [8, 2] 8 (QMC5883L \<lparr>odr = 50, rng = 2, osr = 0x00, mode = 0x01\<rparr>) =
     (None, QMC5883L \<lparr>odr = 50, rng = 8, osr = 0x00, mode = 0x01\<rparr>) \<and>
   WithQMC5883LRNG [8, 2] 4 (QMC5883L \<lparr>odr = 50, rng = 2, osr = 0x00, mode = 0x01\<rparr>) =
     (Some (Error ''RNG must be one of: [2 8]''),
      QMC5883L \<lparr>odr = 50, rng = 2, osr = 0x00, mode = 0x01\<rparr>) \<and>
   WithQMC5883LOSR [64, 512, 128, 256] 64 (QMC5883L \<lparr>odr = 50, rng = 2, osr = 0x00, mode = 0x01\<rparr>) =
     (None, QMC5883L \<lparr>odr = 50, rng = 2, osr = 0xC0, mode = 0x01\<rparr>) \<and>
   WithQMC5883LOSR [64, 512, 128, 256] 1024 (QMC5883L \<lparr>odr = 50, rng = 2, osr = 0x00, mode = 0x01\<rparr>) =
     (Some (Error ''OSR must be one of: [64 128 256 512]''),
      QMC5883L \<lparr>odr = 50, rng = 2, osr = 0x00, mode = 0x01\<rparr>)"
  using
    option_setters_fail_fast [OF range_order_examples, of 200 "\<lparr>odr = 50, rng = 2, osr = 0x00, mode = 0x01\<rparr>" 8 64]
    option_setters_fail_fast [OF range_order_examples, of 60 "\<lparr>odr = 50, rng = 2, osr = 0x00, mode = 0x01\<rparr>" 4 1024]
  by simp

subsection \<open>The operating mode\<close>

lemma index_OSR_pattern: "index qmc5883lOSRBits v \<in> osr_patterns"
  by (simp add: index_OSR osr_patterns_def)

lemma exposed_keeps:
  assumes "option_func_of opt (QMC5883L q) = (None, c)" and "osr q \<in> osr_patterns"
  shows "\<exists>q'. c = QMC5883L q' \<and> mode q' = mode q \<and> osr q' \<in> osr_patterns"
  using assms
  by (cases opt)
    (auto simp: WithQMC5883LODR_def WithQMC5883LRNG_def WithQMC5883LOSR_def index_OSR_pattern
      split: option.splits)

lemma apply_options_keeps:
  assumes "apply_options (map option_func_of opts) q = Inr q'" and "osr q \<in> osr_patterns"
  shows "mode q' = mode q \<and> osr q' \<in> osr_patterns"
  using assms
proof (induction opts arbitrary: q)
  case Nil
  then show ?case by simp
next
  case (Cons opt opts)
  obtain p c where oc: "option_func_of opt (QMC5883L q) = (p, c)"
    by (cases "option_func_of opt (QMC5883L q)")
  with Cons.prems(1) have p: "p = None"
    by (cases p) simp_all
  from exposed_keeps [OF oc [unfolded p] Cons.prems(2)]
  obtain q1 where q1: "c = QMC5883L q1" "mode q1 = mode q" "osr q1 \<in> osr_patterns"
    by blast
  from Cons.prems(1) have "apply_options (map option_func_of opts) q1 = Inr q'"
    by (simp add: oc p q1(1))
  with Cons.IH [of q1] q1 show ?case
    by simp
qed

lemma mode_bits_of_ctrl1:
  assumes "mode q = 0x01" and "osr q \<in> osr_patterns"
  shows "ctrl1 q AND 0x03 = 0x01"
  using assms unfolding ctrl1_def index_ODR index_RNG osr_patterns_def
  by (auto split: if_splits)

lemma initialize_second_write:
  assumes "write_reply c (writes_issued c) = None"
  shows "issued (snd (initialize q c)) ! (length (issued c) + 1) =
           WriteByte qmc5883lRegCtrl1 (ctrl1 q)"
  using assms
  by (cases "write_reply c (writes_issued c + 1)")
    (simp_all add: initialize_def WriteByteData_def writes_issued_def Let_def nth_append)

text \<open>
  C10. Whatever list of the exposed options the constructor is given, the driver it
  returns has its mode field at the continuous pattern \<open>0x01\<close>, never standby, and the
  byte that \<open>initialize\<close> then writes to control register 1 (its second write, once the
  soft reset has gone through) has its two mode bits equal to continuous.
\<close>

theorem constructor_mode_continuous:
  assumes "NewQMC5883LDriver (map option_func_of opts) = Inr q"
  shows "mode q = qmc5883lCtrl1_Mode_Continuous \<and> mode q = 0x01 \<and>
         mode q \<noteq> qmc5883lCtrl1_Mode_Standby \<and>
         ctrl1 q AND 0x03 = qmc5883lCtrl1_Mode_Continuous \<and>
         (\<forall>c. write_reply c (writes_issued c) = None \<longrightarrow>
            issued (snd (initialize q c)) ! (length (issued c) + 1) =
              WriteByte qmc5883lRegCtrl1 (ctrl1 q))"
proof -
  let ?q0 = "\<lparr>odr = 50, rng = 2, osr = index qmc5883lOSRBits 512,
              mode = qmc5883lCtrl1_Mode_Continuous\<rparr>"
  have run: "apply_options (map option_func_of opts) ?q0 = Inr q"
    using assms by (simp add: NewQMC5883LDriver_def)
  have "osr ?q0 \<in> osr_patterns"
    by (simp add: index_OSR_pattern)
  with run have "mode q = mode ?q0 \<and> osr q \<in> osr_patterns"
    by (rule apply_options_keeps)
  then have m: "mode q = 0x01" and o: "osr q \<in> osr_patterns"
    by (simp_all add: qmc5883lCtrl1_Mode_Continuous_def)
  show ?thesis
    using m mode_bits_of_ctrl1 [OF m o] initialize_second_write
    by (simp add: qmc5883lCtrl1_Mode_Continuous_def qmc5883lCtrl1_Mode_Standby_def)
qed

theorem constructor_mode_continuous_witness:
  "NewQMC5883LDriver
     (map option_func_of
        [ODR_option [200, 10, 100, 50] 200, RNG_option [8, 2] 8,
         OSR_option [64, 512, 128, 256] 64]) =
     Inr \<lparr>odr = 200, rng = 8, osr = 0xC0, mode = 0x01\<rparr> \<and>
   mode \<lparr>odr = 200, rng = 8, osr = 0xC0, mode = 0x01\<rparr> = qmc5883lCtrl1_Mode_Continuous \<and>
   ctrl1 \<lparr>odr = 200, rng = 8, osr = 0xC0, mode = 0x01\<rparr> = 0xDD \<and>
   (0xDD :: uint8) AND 0x03 = 0x01 \<and>
   issued (snd (initialize \<lparr>odr = 200, rng = 8, osr = 0xC0, mode = 0x01\<rparr>
                  (fresh_connection (\<lambda>k. Inl (Error ''no data'')) (\<lambda>k. None)))) ! 1 =
     WriteByte 0x09 0xDD"
proof -
  have new: "NewQMC5883LDriver
     (map option_func_of
        [ODR_option [200, 10, 100, 50] 200, RNG_option [8, 2] 8,
         OSR_option [64, 512, 128, 256] 64]) =
     Inr \<lparr>odr = 200, rng = 8, osr = 0xC0, mode = 0x01\<rparr>"
    by (simp add: NewQMC5883LDriver_def WithQMC5883LODR_def WithQMC5883LRNG_def
        WithQMC5883LOSR_def qmc5883lValidateODR_def qmc5883lValidateRNG_def
        qmc5883lValidateOSR_def table_entries index_OSR qmc5883lCtrl1_Mode_Continuous_def)
  have c: "ctrl1 \<lparr>odr = 200, rng = 8, osr = 0xC0, mode = 0x01\<rparr> = 0xDD"
    by (simp add: ctrl1_def index_ODR index_RNG)
  let ?c0 = "fresh_connection (\<lambda>k. Inl (Error ''no data'')) (\<lambda>k. None)"
  note t = constructor_mode_continuous [OF new]
  from t have "\<forall>c. write_reply c (writes_issued c) = None \<longrightarrow>
            issued (snd (initialize \<lparr>odr = 200, rng = 8, osr = 0xC0, mode = 0x01\<rparr> c)) !
              (length (issued c) + 1) =
              WriteByte qmc5883lRegCtrl1 (ctrl1 \<lparr>odr = 200, rng = 8, osr = 0xC0, mode = 0x01\<rparr>)"
    by blast
  then have "write_reply ?c0 (writes_issued ?c0) = None \<longrightarrow>
            issued (snd (initialize \<lparr>odr = 200, rng = 8, osr = 0xC0, mode = 0x01\<rparr> ?c0)) !
              (length (issued ?c0) + 1) =
              WriteByte qmc5883lRegCtrl1 (ctrl1 \<lparr>odr = 200, rng = 8, osr = 0xC0, mode = 0x01\<rparr>)"
    by (rule spec)
  then have w: "issued (snd (initialize \<lparr>odr = 200, rng = 8, osr = 0xC0, mode = 0x01\<rparr> ?c0)) ! 1 =
              WriteByte 0x09 0xDD"
    by (simp add: fresh_connection_def writes_issued_def qmc5883lRegCtrl1_def c)
  from t have "ctrl1 \<lparr>odr = 200, rng = 8, osr = 0xC0, mode = 0x01\<rparr> AND 0x03 =
      qmc5883lCtrl1_Mode_Continuous"
    by blast
  then have b: "(0xDD :: uint8) AND 0x03 = 0x01"
    by (simp add: c qmc5883lCtrl1_Mode_Continuous_def)
  from t have m: "mode \<lparr>odr = 200, rng = 8, osr = 0xC0, mode = 0x01\<rparr> = qmc5883lCtrl1_Mode_Continuous"
    by blast
  show ?thesis
    using new m c b w by blast
qed

end
